theory Spec2Isabelle
  imports Complex_Main
begin

section \<open>Outcomes, exceptions and the random source\<close>

text \<open>
  A Python exception is kept as the name of its class and its message, which is all the
  code under study ever reads of one (\<^verbatim>\<open>type(e).__name__\<close> and \<^verbatim>\<open>str(e)\<close>).
  Only exceptions below \<^verbatim>\<open>Exception\<close> are modelled, so \<^verbatim>\<open>except Exception\<close> catches each.
\<close>

datatype exn = Exn (exn_type: string) (exn_msg: string)

text \<open>
  A call on a state of type \<open>'s\<close> returns a value, raises, or has not returned; the first
  two leave a state behind. \<open>NoReturn\<close> is the value of a run that is still looping when the
  finite tape of random draws has been used up, or that loops without ever drawing.
\<close>

datatype ('a, 's) outcome = Returns 'a 's | Raises exn 's | NoReturn

text \<open>
  The module-level generator \<^verbatim>\<open>random\<close> is a tape of raw draws. \<^verbatim>\<open>random.randint(a, b)\<close>
  raises \<^verbatim>\<open>ValueError\<close> when \<open>b < a\<close>; otherwise it consumes one raw draw \<open>r\<close> and returns
  \<open>a + r mod (b - a + 1)\<close>, so that every integer of \<open>[a, b]\<close> is the result of some draw and
  no other integer is.
\<close>

type_synonym tape = "nat list"

definition randint :: "int \<Rightarrow> int \<Rightarrow> tape \<Rightarrow> (int, tape) outcome" where
  "randint a b t =
     (if b < a then Raises (Exn ''ValueError'' ''empty range for randrange()'') t
      else case t of
             [] \<Rightarrow> NoReturn
           | r # rest \<Rightarrow> Returns (a + int (r mod nat (b - a + 1))) rest)"

section \<open>Strings and paths\<close>

text \<open>
  A \<^verbatim>\<open>str\<close> is a list of characters, each a code point below 256. \<^verbatim>\<open>str.isspace\<close> holds
  of these code points: tab to carriage return, the four separators 28 to 31, the space,
  NEL (133) and the no-break space (160).
\<close>

definition py_isspace :: "char \<Rightarrow> bool" where
  "py_isspace c \<longleftrightarrow> (of_char c :: nat) \<in> {9, 10, 11, 12, 13, 28, 29, 30, 31, 32, 133, 160}"

text \<open>\<^verbatim>\<open>s.rstrip()\<close>, \<^verbatim>\<open>s.startswith(p)\<close> and \<^verbatim>\<open>s.endswith(p)\<close>.\<close>

definition rstrip :: "string \<Rightarrow> string" where
  "rstrip s = rev (dropWhile py_isspace (rev s))"

definition startswith :: "string \<Rightarrow> string \<Rightarrow> bool" where
  "startswith s p \<longleftrightarrow> take (length p) s = p"

definition endswith :: "string \<Rightarrow> string \<Rightarrow> bool" where
  "endswith s p \<longleftrightarrow> length p \<le> length s \<and> drop (length s - length p) s = p"

text \<open>
  \<^verbatim>\<open>s.replace(old, new)\<close>: every occurrence of \<open>old\<close>, found from the left without overlap,
  becomes \<open>new\<close>; an empty \<open>old\<close> matches before every character and at the end.
\<close>

function replace :: "string \<Rightarrow> string \<Rightarrow> string \<Rightarrow> string" where
  "replace s old new =
     (if old = [] then new @ concat (map (\<lambda>c. c # new) s)
      else if s = [] then []
      else if startswith s old then new @ replace (drop (length old) s) old new
      else hd s # replace (tl s) old new)"
  by pat_completeness auto
termination
  by (relation "measure (\<lambda>(s, old, new). length s)") auto

declare replace.simps [simp del]

text \<open>\<^verbatim>\<open>os.path.join(a, b)\<close> and \<^verbatim>\<open>os.path.basename(p)\<close> of \<^verbatim>\<open>posixpath\<close>.\<close>

definition os_path_join :: "string \<Rightarrow> string \<Rightarrow> string" where
  "os_path_join a b =
     (if startswith b ''/'' then b
      else if a = [] \<or> endswith a ''/'' then a @ b
      else a @ ''/'' @ b)"

definition os_path_basename :: "string \<Rightarrow> string" where
  "os_path_basename p = rev (takeWhile (\<lambda>c. c \<noteq> CHR ''/'') (rev p))"

text \<open>
  \<^verbatim>\<open>xs[i]\<close> on a list: a negative index counts from the end, an index outside raises.
\<close>

definition py_index :: "'a list \<Rightarrow> int \<Rightarrow> exn + 'a" where
  "py_index xs i =
     (let n = int (length xs); j = (if i < 0 then i + n else i) in
      if 0 \<le> j \<and> j < n then Inr (xs ! nat j)
      else Inl (Exn ''IndexError'' ''list index out of range''))"

text \<open>
  \<^verbatim>\<open>xs[a:b]\<close>: a negative bound counts from the end, and both bounds are clamped to the
  length, so a slice reaching past the end is cut short and never raises.
\<close>

definition py_slice :: "'a list \<Rightarrow> int \<Rightarrow> int \<Rightarrow> 'a list" where
  "py_slice xs a b =
     (let n = int (length xs);
          clamp = (\<lambda>i. if i < 0 then max (i + n) 0 else min i n);
          lo = clamp a; hi = clamp b
      in take (nat (hi - lo)) (drop (nat lo) xs))"

section \<open>Binary64 arithmetic\<close>

text \<open>
  Python's \<^verbatim>\<open>float\<close> is IEEE 754 binary64. A finite double is the rational it denotes;
  an operation computes the exact rational result and rounds it to the nearest double,
  ties to the even significand. \<open>fl x\<close> is that double, or \<open>None\<close> when the rounded
  magnitude is beyond the largest finite double (the operation overflows).
\<close>

definition pow2 :: "int \<Rightarrow> rat" where
  "pow2 e = (if 0 \<le> e then 2 ^ nat e else 1 / 2 ^ nat (- e))"

fun bits :: "nat \<Rightarrow> nat" where
  "bits n = (if n = 0 then 0 else Suc (bits (n div 2)))"

declare bits.simps [simp del]

text \<open>
  \<open>ilog2 x\<close> is the integer \<open>e\<close> with \<open>2 ^ e \<le> x < 2 ^ (e + 1)\<close>, for \<open>x > 0\<close>: one less than the
  number of bits of \<open>\<lfloor>x\<rfloor>\<close> from 1 on, and below 1 the least \<open>j\<close> with \<open>1 / x \<le> 2 ^ j\<close>, negated.
\<close>

definition ilog2 :: "rat \<Rightarrow> int" where
  "ilog2 x =
     (if 1 \<le> x then int (bits (nat \<lfloor>x\<rfloor>)) - 1
      else - int (bits (nat (\<lceil>1 / x\<rceil> - 1))))"

definition round_half_even :: "rat \<Rightarrow> int" where
  "round_half_even x =
     (let f = \<lfloor>x\<rfloor>; r = x - of_int f in
      if r < 1 / 2 then f
      else if 1 / 2 < r then f + 1
      else if even f then f else f + 1)"

text \<open>
  The spacing of the doubles around \<open>x\<close> is \<open>2 ^ (e - 52)\<close> for the exponent \<open>e\<close> of \<open>x\<close>, which
  is never below \<open>-1022\<close> (the subnormal range shares the spacing \<open>2 ^ -1074\<close>).
\<close>

definition fl :: "rat \<Rightarrow> rat option" where
  "fl x =
     (if x = 0 then Some 0
      else
        let e = max (ilog2 \<bar>x\<bar>) (- 1022);
            q = pow2 (e - 52);
            y = of_int (round_half_even (\<bar>x\<bar> / q)) * q
        in if pow2 1024 \<le> y then None else Some (sgn x * y))"

text \<open>A float is a finite double or an infinity (no operation of the code yields a NaN).\<close>

datatype float = Finite rat | Infinite

text \<open>
  \<^verbatim>\<open>float(x)\<close> of a number, \<^verbatim>\<open>n / y\<close> of an \<^verbatim>\<open>int\<close> by a \<^verbatim>\<open>float\<close>, the product \<^verbatim>\<open>80.0 * y\<close> and
  \<^verbatim>\<open>int(y)\<close>, which truncates towards zero.
\<close>

definition py_float :: "rat \<Rightarrow> exn + rat" where
  "py_float x =
     (case fl x of
        None \<Rightarrow> Inl (Exn ''OverflowError'' ''int too large to convert to float'')
      | Some y \<Rightarrow> Inr y)"

definition py_truediv :: "int \<Rightarrow> rat \<Rightarrow> exn + float" where
  "py_truediv n y =
     (case py_float (of_int n) of
        Inl e \<Rightarrow> Inl e
      | Inr x \<Rightarrow>
          if y = 0 then Inl (Exn ''ZeroDivisionError'' ''float division by zero'')
          else Inr (case fl (x / y) of None \<Rightarrow> Infinite | Some z \<Rightarrow> Finite z))"

definition py_mul :: "rat \<Rightarrow> float \<Rightarrow> float" where
  "py_mul c y =
     (case y of
        Infinite \<Rightarrow> Infinite
      | Finite x \<Rightarrow> (case fl (c * x) of None \<Rightarrow> Infinite | Some z \<Rightarrow> Finite z))"

definition py_int :: "float \<Rightarrow> exn + int" where
  "py_int y =
     (case y of
        Infinite \<Rightarrow> Inl (Exn ''OverflowError'' ''cannot convert float infinity to integer'')
      | Finite x \<Rightarrow> Inr (if 0 \<le> x then \<lfloor>x\<rfloor> else \<lceil>x\<rceil>))"

section \<open>Collaborators, configuration and state\<close>

text \<open>
  What the code uses of a \<^verbatim>\<open>decord.VideoReader\<close>: \<^verbatim>\<open>len(vr)\<close>, \<^verbatim>\<open>vr.get_batch(indices)\<close>
  (with \<^verbatim>\<open>.asnumpy()\<close> folded in) and \<^verbatim>\<open>vr.seek(pos)\<close>. The decoder is a collaborator
  outside the repository, so each operation is a parameter and may raise. A frame has
  type \<open>'f\<close>.
\<close>

record 'f video_reader =
  vr_len :: nat
  vr_get_batch :: "int list \<Rightarrow> exn + 'f list"
  vr_seek :: "int \<Rightarrow> exn option"

text \<open>
  An \<^verbatim>\<open>ImageProcessor\<close>: its two methods, from a batch of frames to processed tensors
  (one entry of type \<open>'g\<close> per frame). The flag is \<^verbatim>\<open>affine_transform\<close>.
\<close>

record ('f, 'g) image_processor =
  prepare_masks_and_masked_images :: "'f list \<Rightarrow> bool \<Rightarrow> exn + ('g list \<times> 'g list \<times> 'g list)"
  process_images :: "'f list \<Rightarrow> exn + 'g list"

text \<open>
  The collaborators the module imports, as parameters. A spectrogram is kept as the list
  of its columns (of type \<open>'c\<close>), so that \<^verbatim>\<open>mel[:, a:b]\<close> is a slice of that list and
  \<^verbatim>\<open>mel.shape[-1]\<close> its length. \<open>open_lines\<close> is \<^verbatim>\<open>open(path)\<close> followed by the iteration over
  the file, \<open>AudioReader\<close> yields the samples (of type \<open>'a\<close>) that
  \<^verbatim>\<open>ar[:].asnumpy().squeeze(0)\<close> extracts. \<open>torch_load\<close> reads a spectrogram back from the
  content (of type \<open>'b\<close>) of a file, or raises. \<open>torch_save\<close> serialises a spectrogram for a
  path: it yields the content written, or raises and leaves at the path either no file or
  a partial one. \<open>os_remove\<close> and \<open>print\<close> say for a path and for a line whether
  \<^verbatim>\<open>os.remove\<close> and \<^verbatim>\<open>print\<close> raise on it (a file that cannot be deleted, a line that the
  encoding of the standard output cannot write).
\<close>

record ('f, 'g, 'a, 'c, 'b) world =
  open_lines :: "string \<Rightarrow> exn + string list"
  listdir :: "string \<Rightarrow> exn + string list"
  load_fixed_mask :: "int \<Rightarrow> exn + 'g"
  makedirs :: "string \<Rightarrow> exn option"
  ImageProcessor :: "int \<Rightarrow> string \<Rightarrow> 'g \<Rightarrow> exn + ('f, 'g) image_processor"
  VideoReader :: "string \<Rightarrow> nat \<Rightarrow> exn + 'f video_reader"
  AudioReader :: "string \<Rightarrow> nat \<Rightarrow> int \<Rightarrow> exn + 'a"
  melspectrogram :: "'a \<Rightarrow> exn + 'c list"
  torch_load :: "'b \<Rightarrow> exn + 'c list"
  torch_save :: "'c list \<Rightarrow> string \<Rightarrow> (exn \<times> 'b option) + 'b"
  os_remove :: "string \<Rightarrow> exn option"
  print :: "string \<Rightarrow> exn option"

text \<open>The options read from \<^verbatim>\<open>config\<close>: \<open>data_x\<close> is \<^verbatim>\<open>config.data.x\<close>, and so on.\<close>

record config =
  data_train_fileslist :: string
  data_resolution :: int
  data_num_frames :: int
  data_audio_sample_rate :: int
  data_video_fps :: rat
  data_mask :: string
  data_audio_mel_cache_dir :: string
  model_add_audio_layer :: bool
  run_use_syncnet :: bool

text \<open>
  The attributes of a \<^verbatim>\<open>UNetDataset\<close>. The attributes \<^verbatim>\<open>image_processor_<id>\<close> set by
  \<^verbatim>\<open>setattr\<close> are the map \<open>image_processors\<close> from worker ids.
\<close>

record ('f, 'g) dataset =
  video_paths :: "string list"
  resolution :: int
  num_frames :: int
  mel_window_length :: int
  audio_sample_rate :: int
  video_fps :: rat
  mask :: string
  mask_image :: 'g
  load_audio_data :: bool
  audio_mel_cache_dir :: string
  worker_id :: nat
  image_processors :: "nat \<rightharpoonup> ('f, 'g) image_processor"

text \<open>
  What a call can change outside the object: the generator, the files of the cache
  directory (a map from paths to contents) and the lines printed. The videos are read
  through the decoders of the world and are not files of this map.
\<close>

record 'b state =
  rng :: tape
  fs :: "string \<rightharpoonup> 'b"
  stdout :: "string list"

text \<open>
  The local variables of \<^verbatim>\<open>__getitem__\<close> that outlive a round of its loop; \<open>None\<close> is a
  variable not yet bound.
\<close>

record 'f locals =
  l_idx :: int
  l_video_path :: "string option"
  l_vr :: "'f video_reader option"

section \<open>Construction\<close>

text \<open>
  Lines 28 to 37 of \<^verbatim>\<open>__init__\<close>: the index, from the manifest \<^verbatim>\<open>config.data.train_fileslist\<close>
  or else from the directory \<^verbatim>\<open>train_data_dir\<close>.
\<close>

definition resolve_paths ::
  "('f, 'g, 'a, 'c, 'b) world \<Rightarrow> string \<Rightarrow> config \<Rightarrow> exn + string list" where
  "resolve_paths W train_data_dir cfg =
     (if data_train_fileslist cfg \<noteq> ''''
      then (case open_lines W (data_train_fileslist cfg) of
              Inl e \<Rightarrow> Inl e
            | Inr file \<Rightarrow> Inr (map rstrip file))
      else if train_data_dir \<noteq> ''''
      then (case listdir W train_data_dir of
              Inl e \<Rightarrow> Inl e
            | Inr files \<Rightarrow>
                Inr (map (os_path_join train_data_dir)
                      (filter (\<lambda>file. endswith file ''.mp4'') files)))
      else Inl (Exn ''ValueError'' ''data_dir and fileslist cannot be both empty''))"

text \<open>
  \<^verbatim>\<open>__init__\<close>, lines 27 to 70. Each call into a collaborator may raise, and an exception
  leaves the constructor at once.
\<close>

definition init ::
  "('f, 'g, 'a, 'c, 'b) world \<Rightarrow> string \<Rightarrow> config \<Rightarrow> exn + ('f, 'g) dataset" where
  "init W train_data_dir cfg =
     (case resolve_paths W train_data_dir cfg of
        Inl e \<Rightarrow> Inl e
      | Inr paths \<Rightarrow>
          (case
             (if data_num_frames cfg = 16 then Inr 52
              else if data_num_frames cfg = 5 then Inr 16
              else Inl (Exn ''NotImplementedError'' ''Only support 16 and 5 frames now''))
           of
             Inl e \<Rightarrow> Inl e
           | Inr window \<Rightarrow>
               (case load_fixed_mask W (data_resolution cfg) of
                  Inl e \<Rightarrow> Inl e
                | Inr fixed_mask \<Rightarrow>
                    (case makedirs W (data_audio_mel_cache_dir cfg) of
                       Some e \<Rightarrow> Inl e
                     | None \<Rightarrow>
                         (case ImageProcessor W (data_resolution cfg) (data_mask cfg) fixed_mask of
                            Inl e \<Rightarrow> Inl e
                          | Inr ip \<Rightarrow>
                              Inr \<lparr>video_paths = paths,
                                   resolution = data_resolution cfg,
                                   num_frames = data_num_frames cfg,
                                   mel_window_length = window,
                                   audio_sample_rate = data_audio_sample_rate cfg,
                                   video_fps = data_video_fps cfg,
                                   dataset.mask = data_mask cfg,
                                   mask_image = fixed_mask,
                                   load_audio_data =
                                     (model_add_audio_layer cfg \<and> run_use_syncnet cfg),
                                   audio_mel_cache_dir = data_audio_mel_cache_dir cfg,
                                   worker_id = 0,
                                   image_processors = [0 \<mapsto> ip]\<rparr>)))))"

text \<open>\<^verbatim>\<open>__len__\<close> and \<^verbatim>\<open>worker_init_fn\<close>.\<close>

definition len :: "('f, 'g) dataset \<Rightarrow> int" where
  "len self = int (length (video_paths self))"

definition worker_init_fn ::
  "('f, 'g, 'a, 'c, 'b) world \<Rightarrow> ('f, 'g) dataset \<Rightarrow> nat \<Rightarrow> exn + ('f, 'g) dataset" where
  "worker_init_fn W self wid =
     (case ImageProcessor W (resolution self) (dataset.mask self) (mask_image self) of
        Inl e \<Rightarrow> Inl e
      | Inr ip \<Rightarrow>
          Inr (self\<lparr>worker_id := wid, image_processors := (image_processors self)(wid \<mapsto> ip)\<rparr>))"

section \<open>Audio\<close>

text \<open>\<^verbatim>\<open>read_audio\<close>, lines 75 to 78.\<close>

definition read_audio ::
  "('f, 'g, 'a, 'c, 'b) world \<Rightarrow> ('f, 'g) dataset \<Rightarrow> string \<Rightarrow> exn + 'c list" where
  "read_audio W self path =
     (case AudioReader W path (worker_id self) (audio_sample_rate self) of
        Inl e \<Rightarrow> Inl e
      | Inr ar \<Rightarrow> melspectrogram W ar)"

text \<open>
  Line 81 of \<^verbatim>\<open>crop_audio_window\<close>:
  \<^verbatim>\<open>start_idx = int(80.0 * (start_index / float(self.video_fps)))\<close>.
\<close>

definition start_column :: "rat \<Rightarrow> int \<Rightarrow> exn + int" where
  "start_column fps start_index =
     (case py_float fps of
        Inl e \<Rightarrow> Inl e
      | Inr f \<Rightarrow>
          (case py_truediv start_index f of
             Inl e \<Rightarrow> Inl e
           | Inr y \<Rightarrow> py_int (py_mul 80 y)))"

text \<open>\<^verbatim>\<open>crop_audio_window\<close>, lines 80 to 83; \<^verbatim>\<open>unsqueeze(0)\<close> is the outer list.\<close>

definition crop_audio_window ::
  "('f, 'g) dataset \<Rightarrow> 'c list \<Rightarrow> int \<Rightarrow> exn + 'c list list" where
  "crop_audio_window self original_mel start_index =
     (case start_column (video_fps self) start_index of
        Inl e \<Rightarrow> Inl e
      | Inr start_idx \<Rightarrow>
          let end_idx = start_idx + mel_window_length self in
          Inr [py_slice original_mel start_idx end_idx])"

text \<open>\<^verbatim>\<open>mel.shape[-1]\<close> of such a window: the number of its columns.\<close>

definition shape_last :: "'c list list \<Rightarrow> int" where
  "shape_last m = (case m of [] \<Rightarrow> 0 | x # _ \<Rightarrow> int (length x))"

section \<open>The window sampler\<close>

text \<open>\<^verbatim>\<open>np.arange(a, b, dtype=int)\<close>: the integers \<open>a, a + 1, ..., b - 1\<close>.\<close>

definition arange :: "int \<Rightarrow> int \<Rightarrow> int list" where
  "arange a b = [a..b - 1]"

text \<open>
  The test of line 93, under which a drawn negative start is thrown away:
  \<^verbatim>\<open>wrong_start_idx > start_idx - self.num_frames and wrong_start_idx < start_idx + self.num_frames\<close>.
\<close>

definition rejected :: "int \<Rightarrow> int \<Rightarrow> int \<Rightarrow> bool" where
  "rejected N start_idx wrong_start_idx \<longleftrightarrow>
     wrong_start_idx > start_idx - N \<and> wrong_start_idx < start_idx + N"

text \<open>
  The \<^verbatim>\<open>while True\<close> loop of lines 91 to 96, for \<open>N = self.num_frames\<close> and
  \<open>T = total_num_frames\<close>. It returns the accepted \<^verbatim>\<open>wrong_start_idx\<close>. Each round consumes
  one draw, so the recursion ends with the tape.
\<close>

function wrong_start_loop :: "int \<Rightarrow> int \<Rightarrow> int \<Rightarrow> tape \<Rightarrow> (int, tape) outcome" where
  "wrong_start_loop N T start_idx t =
     (case randint 0 (T - N) t of
        Raises e t' \<Rightarrow> Raises e t'
      | NoReturn \<Rightarrow> NoReturn
      | Returns wrong_start_idx t' \<Rightarrow>
          if rejected N start_idx wrong_start_idx then wrong_start_loop N T start_idx t'
          else Returns wrong_start_idx t')"
  by pat_completeness auto
termination
  by (relation "measure (\<lambda>(N, T, start_idx, t). length t)")
    (auto simp: randint_def split: if_splits list.splits)

declare wrong_start_loop.simps [simp del]

text \<open>
  The tapes of \<open>n\<close> raw draws below \<open>T - N + 1\<close> (on which \<^verbatim>\<open>randint(0, T - N)\<close> is the draw
  itself, so that equally likely tapes are equally likely runs) at whose end the loop has
  not returned.
\<close>

definition stalled :: "int \<Rightarrow> int \<Rightarrow> int \<Rightarrow> nat \<Rightarrow> tape set" where
  "stalled N T s n =
     {t. length t = n \<and> set t \<subseteq> {..<nat (T - N + 1)} \<and> wrong_start_loop N T s t = NoReturn}"

text \<open>
  Lines 86 to 96 of \<^verbatim>\<open>get_frames\<close>: the two index windows and the positive start, from the
  frame count \<open>T = len(video_reader)\<close>.
\<close>

definition get_frames_index :: "int \<Rightarrow> int \<Rightarrow> tape \<Rightarrow> (int list \<times> int list \<times> int, tape) outcome" where
  "get_frames_index N T t =
     (case randint (N div 2) (T - N - N div 2) t of
        Raises e t1 \<Rightarrow> Raises e t1
      | NoReturn \<Rightarrow> NoReturn
      | Returns start_idx t1 \<Rightarrow>
          let frames_index = arange start_idx (start_idx + N) in
          (case wrong_start_loop N T start_idx t1 of
             Raises e t2 \<Rightarrow> Raises e t2
           | NoReturn \<Rightarrow> NoReturn
           | Returns wrong_start_idx t2 \<Rightarrow>
               let wrong_frames_index = arange wrong_start_idx (wrong_start_idx + N) in
               Returns (frames_index, wrong_frames_index, start_idx) t2))"

text \<open>\<^verbatim>\<open>get_frames\<close> as a whole: lines 98 to 101 fetch the two batches.\<close>

definition get_frames ::
  "int \<Rightarrow> 'f video_reader \<Rightarrow> tape \<Rightarrow> ('f list \<times> 'f list \<times> int, tape) outcome" where
  "get_frames N video_reader t =
     (let total_num_frames = int (vr_len video_reader) in
      case get_frames_index N total_num_frames t of
        Raises e t' \<Rightarrow> Raises e t'
      | NoReturn \<Rightarrow> NoReturn
      | Returns (frames_index, wrong_frames_index, start_idx) t' \<Rightarrow>
          (case vr_get_batch video_reader frames_index of
             Inl e \<Rightarrow> Raises e t'
           | Inr frames \<Rightarrow>
               (case vr_get_batch video_reader wrong_frames_index of
                  Inl e \<Rightarrow> Raises e t'
                | Inr wrong_frames \<Rightarrow> Returns (frames, wrong_frames, start_idx) t')))"

section \<open>The spectrogram cache\<close>

text \<open>Lines 130 to 132: where the spectrogram of a video is cached.\<close>

definition mel_cache_path :: "('f, 'g) dataset \<Rightarrow> string \<Rightarrow> string" where
  "mel_cache_path self path =
     os_path_join (audio_mel_cache_dir self)
       (replace (os_path_basename path) ''.mp4'' ''_mel.pt'')"

text \<open>
  The key as the specification words it, to compare with: the cache directory joined
  with the base name whose extension (the part from its last dot on) is replaced by the
  suffix of the cache.
\<close>

definition spec_replace_extension :: "string \<Rightarrow> string \<Rightarrow> string" where
  "spec_replace_extension name suffix =
     (if CHR ''.'' \<in> set name
      then rev (tl (dropWhile (\<lambda>c. c \<noteq> CHR ''.'') (rev name))) @ suffix
      else name @ suffix)"

definition spec_cache_key :: "string \<Rightarrow> string \<Rightarrow> string" where
  "spec_cache_key cache_dir path =
     os_path_join cache_dir (spec_replace_extension (os_path_basename path) ''_mel.pt'')"

text \<open>
  The two \<^verbatim>\<open>print\<close> calls write \<^verbatim>\<open>f"{type(e).__name__} - {e} - {path}"\<close>; a call that
  raises writes nothing.
\<close>

definition error_line :: "exn \<Rightarrow> string \<Rightarrow> string" where
  "error_line e path = exn_type e @ '' - '' @ exn_msg e @ '' - '' @ path"

definition print_error ::
  "('f, 'g, 'a, 'c, 'b) world \<Rightarrow> exn \<Rightarrow> string \<Rightarrow> 'b state \<Rightarrow> exn + 'b state" where
  "print_error W e path st =
     (case print W (error_line e path) of
        Some e' \<Rightarrow> Inl e'
      | None \<Rightarrow> Inr (st\<lparr>stdout := stdout st @ [error_line e path]\<rparr>))"

text \<open>
  Lines 130 to 144: the full spectrogram of a video, from the cache or computed and
  cached. \<^verbatim>\<open>os.path.isfile\<close> holds of the paths the file map binds, \<^verbatim>\<open>os.remove\<close> unbinds
  one, \<^verbatim>\<open>torch.save\<close> binds one. Each of \<^verbatim>\<open>print\<close>, \<^verbatim>\<open>os.remove\<close>, \<^verbatim>\<open>read_audio\<close> and
  \<^verbatim>\<open>torch.save\<close> can raise, and what they raise leaves the block (towards the \<^verbatim>\<open>except\<close>
  clause of the loop) with the files as they are at that point.
\<close>

definition original_mel_of ::
  "('f, 'g, 'a, 'c, 'b) world \<Rightarrow> ('f, 'g) dataset \<Rightarrow> string \<Rightarrow> 'b state \<Rightarrow>
     ('c list, 'b state) outcome" where
  "original_mel_of W self path st =
     (let cache = mel_cache_path self path in
      case fs st cache of
        Some content \<Rightarrow>
          (case torch_load W content of
             Inr original_mel \<Rightarrow> Returns original_mel st
           | Inl e \<Rightarrow>
               (case print_error W e cache st of
                  Inl e' \<Rightarrow> Raises e' st
                | Inr st1 \<Rightarrow>
                    (case os_remove W cache of
                       Some e' \<Rightarrow> Raises e' st1
                     | None \<Rightarrow>
                         let st2 = st1\<lparr>fs := (fs st1)(cache := None)\<rparr> in
                         (case read_audio W self path of
                            Inl e' \<Rightarrow> Raises e' st2
                          | Inr original_mel \<Rightarrow>
                              (case torch_save W original_mel cache of
                                 Inl (e', left) \<Rightarrow> Raises e' (st2\<lparr>fs := (fs st2)(cache := left)\<rparr>)
                               | Inr written \<Rightarrow>
                                   Returns original_mel
                                     (st2\<lparr>fs := (fs st2)(cache \<mapsto> written)\<rparr>))))))
      | None \<Rightarrow>
          (case read_audio W self path of
             Inl e \<Rightarrow> Raises e st
           | Inr original_mel \<Rightarrow>
               (case torch_save W original_mel cache of
                  Inl (e, left) \<Rightarrow> Raises e (st\<lparr>fs := (fs st)(cache := left)\<rparr>)
                | Inr written \<Rightarrow>
                    Returns original_mel (st\<lparr>fs := (fs st)(cache \<mapsto> written)\<rparr>))))"

text \<open>
  Lines 129 to 151: the value of \<^verbatim>\<open>mel\<close>, or \<open>None\<close> where the code says \<^verbatim>\<open>continue\<close> because
  the cropped window is too short.
\<close>

definition load_mel ::
  "('f, 'g, 'a, 'c, 'b) world \<Rightarrow> ('f, 'g) dataset \<Rightarrow> string \<Rightarrow> int \<Rightarrow> 'b state \<Rightarrow>
     ('c list list option, 'b state) outcome" where
  "load_mel W self path start st =
     (if load_audio_data self then
        (case original_mel_of W self path st of
           Raises e st' \<Rightarrow> Raises e st'
         | NoReturn \<Rightarrow> NoReturn
         | Returns original_mel st' \<Rightarrow>
             (case crop_audio_window self original_mel start of
                Inl e \<Rightarrow> Raises e st'
              | Inr m \<Rightarrow>
                  if shape_last m \<noteq> mel_window_length self then Returns None st'
                  else Returns (Some m) st'))
      else Returns (Some []) st)"

section \<open>Assembling a sample\<close>

text \<open>
  The dictionary \<^verbatim>\<open>sample\<close> returned by \<^verbatim>\<open>__getitem__\<close>, one field per key. \<open>mel\<close> is the
  empty list when audio is off, and otherwise the cropped spectrogram under its leading
  axis of length one.
\<close>

record ('g, 'c) sample =
  gt :: "'g list"
  masked_gt :: "'g list"
  ref :: "'g list"
  mel :: "'c list list"
  mask :: "'g list"
  video_path :: string
  start_idx :: int

text \<open>Lines 153 to 161: the image processing, and the reset of the decoder.\<close>

definition process_frames ::
  "('f, 'g) image_processor \<Rightarrow> ('f, 'g) dataset \<Rightarrow> 'f video_reader \<Rightarrow> 'f list \<Rightarrow> 'f list \<Rightarrow>
     exn + ('g list \<times> 'g list \<times> 'g list \<times> 'g list)" where
  "process_frames ip self vr continuous_frames ref_frames =
     (case prepare_masks_and_masked_images ip continuous_frames False of
        Inl e \<Rightarrow> Inl e
      | Inr (gt', masked_gt', mask') \<Rightarrow>
          (case
             (if dataset.mask self = ''fix_mask''
              then (case prepare_masks_and_masked_images ip ref_frames False of
                      Inl e \<Rightarrow> Inl e
                    | Inr (ref', _, _) \<Rightarrow> Inr ref')
              else process_images ip ref_frames)
           of
             Inl e \<Rightarrow> Inl e
           | Inr ref' \<Rightarrow>
               (case vr_seek vr 0 of
                  Some e \<Rightarrow> Inl e
                | None \<Rightarrow> Inr (gt', masked_gt', mask', ref'))))"

text \<open>
  One round of the loop of \<^verbatim>\<open>__getitem__\<close>, up to the \<^verbatim>\<open>except\<close> clause: the body of the
  \<^verbatim>\<open>try\<close> (lines 117 to 162) ends in \<^verbatim>\<open>break\<close>, in \<^verbatim>\<open>continue\<close> or in an exception, with the
  local variables and the state as they are then; or the tape ends first.
\<close>

datatype ('f, 'g, 'c, 'b) round =
  Broke "('g, 'c) sample" "'b state"
| Continued "'f locals" "'b state"
| Excepted exn "'f locals" "'b state"
| Starved

definition try_body ::
  "('f, 'g, 'a, 'c, 'b) world \<Rightarrow> ('f, 'g) dataset \<Rightarrow> ('f, 'g) image_processor \<Rightarrow>
     'f locals \<Rightarrow> 'b state \<Rightarrow> ('f, 'g, 'c, 'b) round" where
  "try_body W self ip loc st =
     (case randint 0 (len self - 1) (rng st) of
        Raises e t \<Rightarrow> Excepted e loc st
      | NoReturn \<Rightarrow> Starved
      | Returns idx t1 \<Rightarrow>
          let loc1 = loc\<lparr>l_idx := idx\<rparr>; st1 = st\<lparr>rng := t1\<rparr> in
          (case py_index (video_paths self) idx of
             Inl e \<Rightarrow> Excepted e loc1 st1
           | Inr path \<Rightarrow>
               let loc2 = loc1\<lparr>l_video_path := Some path\<rparr> in
               (case VideoReader W path (worker_id self) of
                  Inl e \<Rightarrow> Excepted e loc2 st1
                | Inr vr \<Rightarrow>
                    let loc3 = loc2\<lparr>l_vr := Some vr\<rparr> in
                    if int (vr_len vr) < 3 * num_frames self then Continued loc3 st1
                    else
                      (case get_frames (num_frames self) vr t1 of
                         Raises e t2 \<Rightarrow> Excepted e loc3 (st1\<lparr>rng := t2\<rparr>)
                       | NoReturn \<Rightarrow> Starved
                       | Returns (continuous_frames, ref_frames, start) t2 \<Rightarrow>
                           (case load_mel W self path start (st1\<lparr>rng := t2\<rparr>) of
                              Raises e st3 \<Rightarrow> Excepted e loc3 st3
                            | NoReturn \<Rightarrow> Starved
                            | Returns None st3 \<Rightarrow> Continued loc3 st3
                            | Returns (Some m) st3 \<Rightarrow>
                                (case process_frames ip self vr continuous_frames ref_frames of
                                   Inl e \<Rightarrow> Excepted e loc3 st3
                                 | Inr (gt', masked_gt', mask', ref') \<Rightarrow>
                                     Broke \<lparr>gt = gt', masked_gt = masked_gt', ref = ref',
                                            mel = m, sample.mask = mask', video_path = path,
                                            start_idx = start\<rparr> st3))))))"

text \<open>
  The \<^verbatim>\<open>except\<close> clause, lines 164 to 167. It reads \<^verbatim>\<open>video_path\<close>, which raises
  \<^verbatim>\<open>UnboundLocalError\<close> while that variable is unbound, prints, and resets the last decoder
  opened, if any. Nothing guards the clause: what it raises leaves \<^verbatim>\<open>__getitem__\<close>.
\<close>

definition handler ::
  "('f, 'g, 'a, 'c, 'b) world \<Rightarrow> exn \<Rightarrow> 'f locals \<Rightarrow> 'b state \<Rightarrow> (unit, 'b state) outcome" where
  "handler W e loc st =
     (case l_video_path loc of
        None \<Rightarrow>
          Raises (Exn ''UnboundLocalError''
            ''cannot access local variable video_path where it is not associated with a value'') st
      | Some path \<Rightarrow>
          (case print_error W e path st of
             Inl e' \<Rightarrow> Raises e' st
           | Inr st' \<Rightarrow>
               (case l_vr loc of
                  None \<Rightarrow> Returns () st'
                | Some vr \<Rightarrow>
                    (case vr_seek vr 0 of
                       Some e' \<Rightarrow> Raises e' st'
                     | None \<Rightarrow> Returns () st'))))"

text \<open>
  The loop of \<^verbatim>\<open>__getitem__\<close>, lines 115 to 167. A round that raises before it has drawn
  leaves the generator, the index and the local variables as they were, so the rounds
  after it do the same: if its handler does not raise, the loop never returns.
\<close>

function getitem_loop ::
  "('f, 'g, 'a, 'c, 'b) world \<Rightarrow> ('f, 'g) dataset \<Rightarrow> ('f, 'g) image_processor \<Rightarrow>
     'f locals \<Rightarrow> 'b state \<Rightarrow> (('g, 'c) sample, 'b state) outcome" where
  "getitem_loop W self ip loc st =
     (case try_body W self ip loc st of
        Starved \<Rightarrow> NoReturn
      | Broke smp st' \<Rightarrow> Returns smp st'
      | Continued loc' st' \<Rightarrow> getitem_loop W self ip loc' st'
      | Excepted e loc' st' \<Rightarrow>
          (case handler W e loc' st' of
             Raises e' st'' \<Rightarrow> Raises e' st''
           | NoReturn \<Rightarrow> NoReturn
           | Returns u st'' \<Rightarrow>
               if length (rng st'') < length (rng st) then getitem_loop W self ip loc' st''
               else NoReturn))"
  by pat_completeness auto
termination
proof (relation "measure (\<lambda>(W, self, ip, loc, st). length (rng st))", goal_cases)
  case 1
  show ?case by simp
next
  case (2 W self ip loc st loc' st')
  have draw: "length t1 < length t" if "randint a b t = Returns v t1" for a b t v t1
    using that by (auto simp: randint_def split: if_splits list.splits)
  have loop: "length t' \<le> length t" if "wrong_start_loop N T s t = Returns w t'" for N T s t w t'
    using that
  proof (induction N T s t rule: wrong_start_loop.induct)
    case (1 N T s t)
    from "1.prems" obtain v t1 where r: "randint 0 (T - N) t = Returns v t1"
      by (subst (asm) wrong_start_loop.simps) (auto split: outcome.splits)
    show ?case
    proof (cases "rejected N s v")
      case True
      with r "1.prems" have "wrong_start_loop N T s t1 = Returns w t'"
        by (subst (asm) wrong_start_loop.simps) simp
      with "1.IH" [OF r True] draw [OF r] show ?thesis by simp
    next
      case False
      with r "1.prems" have "t' = t1"
        by (subst (asm) wrong_start_loop.simps) simp
      with draw [OF r] show ?thesis by simp
    qed
  qed
  have frames: "length t2 \<le> length t1" if "get_frames N vr t1 = Returns x t2" for N vr t1 x t2
    using that
    by (auto simp: get_frames_def get_frames_index_def Let_def
        split: outcome.splits sum.splits prod.splits dest!: draw loop)
  have audio: "rng s' = rng s" if "load_mel W self path start s = Returns r s'" for path start s r s'
    using that
    by (auto simp: load_mel_def original_mel_of_def print_error_def Let_def
        split: outcome.splits sum.splits if_splits option.splits)
  from 2 have "length (rng st') < length (rng st)"
    by (auto simp: try_body_def Let_def
        split: outcome.splits sum.splits if_splits option.splits prod.splits
        dest!: draw frames audio)
  then show ?case by simp
next
  case 3
  then show ?case by simp
qed

declare getitem_loop.simps [simp del]

text \<open>
  \<^verbatim>\<open>__getitem__\<close>: line 114 looks the worker's image processor up (\<^verbatim>\<open>getattr\<close> raises
  \<^verbatim>\<open>AttributeError\<close> when there is none), then the loop runs with \<^verbatim>\<open>idx\<close> bound to the
  argument and the other local variables unbound.
\<close>

definition getitem ::
  "('f, 'g, 'a, 'c, 'b) world \<Rightarrow> ('f, 'g) dataset \<Rightarrow> int \<Rightarrow> 'b state \<Rightarrow>
     (('g, 'c) sample, 'b state) outcome" where
  "getitem W self idx st =
     (case image_processors self (worker_id self) of
        None \<Rightarrow> Raises (Exn ''AttributeError'' ''UNetDataset object has no such attribute'') st
      | Some ip \<Rightarrow>
          getitem_loop W self ip \<lparr>l_idx = idx, l_video_path = None, l_vr = None\<rparr> st)"


definition same_bindings :: "'f locals \<Rightarrow> 'f locals \<Rightarrow> bool" where
  "same_bindings loc loc2 \<longleftrightarrow> l_video_path loc = l_video_path loc2 \<and> l_vr loc = l_vr loc2"

section \<open>A decoder to run the definitions on\<close>

text \<open>
  A video of \<open>n\<close> frames whose frame \<open>i\<close> is the number \<open>i\<close>; a batch at an index outside
  \<open>[0, n)\<close> raises, seeking never does.
\<close>

definition plain_video :: "nat \<Rightarrow> int video_reader" where
  "plain_video n =
     \<lparr>vr_len = n,
      vr_get_batch = (\<lambda>indices. if \<forall>i \<in> set indices. 0 \<le> i \<and> i < int n then Inr indices
                                   else Inl (Exn ''IndexError'' ''Out of bound indices'')),
      vr_seek = (\<lambda>pos. None)\<rparr>"

text \<open>
  A world to run the definitions on. Frames, tensors and spectrogram columns are numbers.
  The manifest \<open>list.txt\<close> has three lines, the manifest \<open>one.txt\<close> has one, and the
  directory \<open>clips\<close> has three entries. Of
  the videos, \<open>good.mp4\<close> has 60 frames, \<open>short.mp4\<close> has 10, and no other can be opened.
  The audio of a video is the samples 0 to 29, and its spectrogram has one column per
  sample. A cache file is the spectrogram behind a zero; any other content fails to load.
  Saving and deleting never fail, and the standard output writes ASCII only: printing a
  line with any other character raises.
\<close>

definition demo_processor :: "(int, int) image_processor" where
  "demo_processor =
     \<lparr>prepare_masks_and_masked_images =
        (\<lambda>frames affine. Inr (frames, map (\<lambda>x. - x) frames, map (\<lambda>x. 1) frames)),
      process_images = (\<lambda>frames. Inr frames)\<rparr>"

definition demo_world :: "(int, int, nat list, nat, nat list) world" where
  "demo_world =
     \<lparr>open_lines = (\<lambda>path.
         if path = ''list.txt''
         then Inr [''bad.mp4'' @ [CHR 0x0A], ''good.mp4 '' @ [CHR 0x09, CHR 0x0A], ''short.mp4'']
         else if path = ''one.txt'' then Inr [''good.mp4'' @ [CHR 0x0A]]
         else Inl (Exn ''FileNotFoundError'' path)),
      listdir = (\<lambda>path.
         if path = ''clips'' then Inr [''good.mp4'', ''notes.txt'', ''x.mp4.mp4'']
         else Inl (Exn ''FileNotFoundError'' path)),
      load_fixed_mask = (\<lambda>res. Inr 0),
      makedirs = (\<lambda>path. None),
      ImageProcessor = (\<lambda>res mode fixed_mask. Inr demo_processor),
      VideoReader = (\<lambda>path wid.
         if path = ''good.mp4'' then Inr (plain_video 60)
         else if path = ''short.mp4'' then Inr (plain_video 10)
         else Inl (Exn ''DECORDError'' ''cannot open the video'')),
      AudioReader = (\<lambda>path wid rate. Inr [0..<30]),
      melspectrogram = (\<lambda>samples. Inr samples),
      torch_load = (\<lambda>content. case content of
         [] \<Rightarrow> Inl (Exn ''EOFError'' ''Ran out of input'')
       | x # m \<Rightarrow> if x = 0 then Inr m else Inl (Exn ''UnpicklingError'' ''invalid load key'')),
      torch_save = (\<lambda>m path. Inr (0 # m)),
      os_remove = (\<lambda>path. None),
      print = (\<lambda>line.
         if list_ex (\<lambda>c. 127 < (of_char c :: nat)) line
         then Some (Exn ''UnicodeEncodeError'' ''ascii codec cannot encode character'')
         else None)\<rparr>"

definition demo_config :: "int \<Rightarrow> string \<Rightarrow> bool \<Rightarrow> config" where
  "demo_config N manifest audio =
     \<lparr>data_train_fileslist = manifest,
      data_resolution = 256,
      data_num_frames = N,
      data_audio_sample_rate = 16000,
      data_video_fps = 25,
      data_mask = ''fix_mask'',
      data_audio_mel_cache_dir = ''cache'',
      model_add_audio_layer = audio,
      run_use_syncnet = audio\<rparr>"

text \<open>
  The dataset that the constructor builds in that world from a manifest of the given
  lines, with five frames to a window.
\<close>

definition demo_dataset :: "string list \<Rightarrow> bool \<Rightarrow> (int, int) dataset" where
  "demo_dataset paths audio =
     \<lparr>video_paths = paths,
      resolution = 256,
      num_frames = 5,
      mel_window_length = 16,
      audio_sample_rate = 16000,
      video_fps = 25,
      dataset.mask = ''fix_mask'',
      mask_image = 0,
      load_audio_data = audio,
      audio_mel_cache_dir = ''cache'',
      worker_id = 0,
      image_processors = [0 \<mapsto> demo_processor]\<rparr>"

section \<open>Facts about the sampler\<close>

lemma randint_range:
  "randint a b t = Returns v t' \<Longrightarrow> a \<le> v \<and> v \<le> b"
proof -
  assume h: "randint a b t = Returns v t'"
  then have ab: "a \<le> b" by (auto simp: randint_def split: if_splits)
  from h ab obtain r where v: "v = a + int (r mod nat (b - a + 1))"
    by (auto simp: randint_def split: if_splits list.splits)
  have "0 < nat (b - a + 1)" using ab by simp
  then have "r mod nat (b - a + 1) < nat (b - a + 1)" by (rule mod_less_divisor)
  then have "int (r mod nat (b - a + 1)) < b - a + 1" using ab by linarith
  with v show ?thesis by simp
qed


lemma randint_tape:
  "randint a b t = Returns v t' \<Longrightarrow> \<exists>r. t = r # t' \<and> v = a + int (r mod nat (b - a + 1))"
  by (auto simp: randint_def split: if_splits list.splits)

lemma randint_no_raise: "a \<le> b \<Longrightarrow> randint a b t \<noteq> Raises e t'"
  by (auto simp: randint_def split: list.splits)

lemma arange_set: "set (arange a b) = {a..<b}"
  by (auto simp: arange_def)

lemma arange_length: "length (arange a b) = nat (b - a)"
  by (simp add: arange_def)

lemma wrong_start_loop_accepts:
  "wrong_start_loop N T s t = Returns w t' \<Longrightarrow>
     \<not> rejected N s w \<and> 0 \<le> w \<and> w \<le> T - N \<and> length t' < length t"
proof (induction N T s t rule: wrong_start_loop.induct)
  case (1 N T s t)
  from "1.prems" obtain v t1 where r: "randint 0 (T - N) t = Returns v t1"
    by (subst (asm) wrong_start_loop.simps) (auto split: outcome.splits)
  from r have len: "length t1 < length t" by (auto dest: randint_tape)
  show ?case
  proof (cases "rejected N s v")
    case True
    with r "1.prems" have "wrong_start_loop N T s t1 = Returns w t'"
      by (subst (asm) wrong_start_loop.simps) simp
    with "1.IH" [OF r True] len show ?thesis by simp
  next
    case False
    with r "1.prems" have "w = v" "t' = t1"
      by (subst (asm) wrong_start_loop.simps, simp)+
    with False r len show ?thesis by (auto dest: randint_range)
  qed
qed

lemma wrong_start_loop_no_raise:
  "N \<le> T \<Longrightarrow> wrong_start_loop N T s t \<noteq> Raises e t'"
proof (induction N T s t rule: wrong_start_loop.induct)
  case (1 N T s t)
  have nr: "randint 0 (T - N) t \<noteq> Raises e t'" for e t'
    using "1.prems" by (intro randint_no_raise) simp
  show ?case
  proof (cases "randint 0 (T - N) t")
    case (Returns v t1)
    show ?thesis
      using "1.IH" [OF Returns] "1.prems" Returns
      by (subst wrong_start_loop.simps) auto
  next
    case (Raises e' t1)
    with nr [of e' t1] show ?thesis by simp
  next
    case NoReturn
    then show ?thesis by (subst wrong_start_loop.simps) simp
  qed
qed

lemma get_frames_index_Returns:
  assumes "get_frames_index N T t = Returns (fi, wi, s) t'"
  shows "\<exists>w t1. randint (N div 2) (T - N - N div 2) t = Returns s t1 \<and>
           wrong_start_loop N T s t1 = Returns w t' \<and>
           fi = arange s (s + N) \<and> wi = arange w (w + N)"
  using assms
  by (auto simp: get_frames_index_def Let_def split: outcome.splits)

lemma get_frames_Returns:
  assumes "get_frames N vr t = Returns (frames, wrong_frames, s) t'"
  shows "\<exists>fi wi. get_frames_index N (int (vr_len vr)) t = Returns (fi, wi, s) t' \<and>
           vr_get_batch vr fi = Inr frames \<and> vr_get_batch vr wi = Inr wrong_frames"
  using assms
  by (auto simp: get_frames_def Let_def split: outcome.splits sum.splits)

lemma get_frames_index_no_raise:
  assumes "0 \<le> N" and "3 * N \<le> T"
  shows "get_frames_index N T t \<noteq> Raises e t'"
proof -
  have "N div 2 \<le> T - N - N div 2" using assms by linarith
  then have a: "randint (N div 2) (T - N - N div 2) t \<noteq> Raises e t'" for e t'
    by (rule randint_no_raise)
  have "N \<le> T" using assms by linarith
  then have b: "wrong_start_loop N T s t1 \<noteq> Raises e t'" for s t1 e t'
    by (rule wrong_start_loop_no_raise)
  show ?thesis
    using a b by (auto simp: get_frames_index_def Let_def split: outcome.splits)
qed

lemma wrong_start_loop_Cons:
  "N \<le> T \<Longrightarrow> wrong_start_loop N T s (r # t) =
     (if rejected N s (int (r mod nat (T - N + 1))) then wrong_start_loop N T s t
      else Returns (int (r mod nat (T - N + 1))) t)"
  by (subst wrong_start_loop.simps) (simp add: randint_def)

lemma wrong_start_loop_Nil:
  "N \<le> T \<Longrightarrow> wrong_start_loop N T s [] = NoReturn"
  by (subst wrong_start_loop.simps) (simp add: randint_def)

lemma wrong_start_loop_returns:
  assumes "N \<le> T" and "\<exists>r \<in> set t. \<not> rejected N s (int (r mod nat (T - N + 1)))"
  shows "\<exists>w t'. wrong_start_loop N T s t = Returns w t'"
  using assms(2)
  by (induction t) (auto simp: wrong_start_loop_Cons [OF assms(1)])

lemma stalled_bound:
  assumes NT: "N \<le> T" and w0: "0 \<le> w0" "w0 \<le> T - N" "\<not> rejected N s w0"
  shows "finite (stalled N T s n) \<and> card (stalled N T s n) \<le> (nat (T - N + 1) - 1) ^ n"
proof (induction n)
  case 0
  have sub0: "stalled N T s 0 \<subseteq> {[]}" by (auto simp: stalled_def)
  have "finite (stalled N T s 0)" using sub0 by (rule finite_subset) simp
  moreover have "card (stalled N T s 0) \<le> card {[]::tape}" using sub0 by (intro card_mono) simp_all
  ultimately show ?case by simp
next
  case (Suc n)
  let ?M = "nat (T - N + 1)"
  let ?R = "{r. r < ?M \<and> rejected N s (int r)}"
  have "?R \<subseteq> {..<?M} - {nat w0}" using w0 by auto
  then have "card ?R \<le> card ({..<?M} - {nat w0})" by (intro card_mono) auto
  also have "\<dots> = ?M - 1" using w0 by (subst card_Diff_singleton) auto
  finally have cR: "card ?R \<le> ?M - 1" .
  have fR: "finite ?R" by simp
  have sub: "stalled N T s (Suc n) \<subseteq> (\<lambda>(r, t). r # t) ` (?R \<times> stalled N T s n)"
  proof
    fix t assume t: "t \<in> stalled N T s (Suc n)"
    then obtain r t' where rt: "t = r # t'" by (cases t) (auto simp: stalled_def)
    from t rt have r: "r < ?M" and t': "length t' = n" "set t' \<subseteq> {..<?M}"
      and nr: "wrong_start_loop N T s (r # t') = NoReturn"
      by (auto simp: stalled_def)
    from nr r have "rejected N s (int r)" "wrong_start_loop N T s t' = NoReturn"
      by (auto simp: wrong_start_loop_Cons [OF NT] split: if_splits)
    with r t' rt show "t \<in> (\<lambda>(r, t). r # t) ` (?R \<times> stalled N T s n)"
      by (auto simp: stalled_def)
  qed
  from Suc have fin: "finite (stalled N T s n)" and c: "card (stalled N T s n) \<le> (?M - 1) ^ n"
    by simp_all
  have fprod: "finite (?R \<times> stalled N T s n)" using fR fin by simp
  have "card (stalled N T s (Suc n)) \<le> card ((\<lambda>(r, t). r # t) ` (?R \<times> stalled N T s n))"
    using sub fprod by (intro card_mono) auto
  also have "\<dots> \<le> card (?R \<times> stalled N T s n)" using fprod by (rule card_image_le)
  also have "\<dots> = card ?R * card (stalled N T s n)" by (rule card_cartesian_product)
  also have "\<dots> \<le> (?M - 1) * (?M - 1) ^ n" using cR c by (rule mult_le_mono)
  finally have "card (stalled N T s (Suc n)) \<le> (?M - 1) ^ Suc n" by simp
  moreover have "finite (stalled N T s (Suc n))"
    using sub fprod by (meson finite_imageI finite_subset)
  ultimately show ?case by simp
qed

lemma tapes_card: "card {t. length t = n \<and> set t \<subseteq> {..<M::nat}} = M ^ n"
  using card_lists_length_eq [of "{..<M}" n] by (simp add: conj_commute)

lemma stalled_fraction_tends_to_0:
  assumes NT: "N \<le> T" and w0: "0 \<le> w0" "w0 \<le> T - N" "\<not> rejected N s w0"
  shows "(\<lambda>n. real (card (stalled N T s n)) / real (nat (T - N + 1) ^ n)) \<longlonglongrightarrow> 0"
proof -
  let ?M = "nat (T - N + 1)"
  have M: "0 < ?M" using NT by simp
  let ?q = "real (?M - 1) / real ?M"
  have q: "0 \<le> ?q" "?q < 1" using M by (auto simp: field_simps)
  have lim: "(\<lambda>n. ?q ^ n) \<longlonglongrightarrow> 0" using q by (intro LIMSEQ_realpow_zero) auto
  have le: "real (card (stalled N T s n)) / real (?M ^ n) \<le> ?q ^ n" for n
  proof -
    have "real (card (stalled N T s n)) \<le> real ((?M - 1) ^ n)"
      using stalled_bound [OF assms, of n] by (simp only: of_nat_le_iff)
    then have "real (card (stalled N T s n)) / real (?M ^ n) \<le> real ((?M - 1) ^ n) / real (?M ^ n)"
      by (intro divide_right_mono) auto
    also have "\<dots> = ?q ^ n" by (simp add: power_divide)
    finally show ?thesis .
  qed
  show ?thesis
  proof (rule tendsto_sandwich [OF _ _ tendsto_const lim])
    show "\<forall>\<^sub>F n in sequentially. 0 \<le> real (card (stalled N T s n)) / real (?M ^ n)"
      by simp
    show "\<forall>\<^sub>F n in sequentially. real (card (stalled N T s n)) / real (?M ^ n) \<le> ?q ^ n"
      by (rule always_eventually) (rule allI, rule le)
  qed
qed

section \<open>Claims about the window sampler\<close>

text \<open>
  C1. Whenever \<^verbatim>\<open>get_frames\<close> returns, the batches it returns were fetched at the windows
  \<open>[s, s + N)\<close> and \<open>[w, w + N)\<close>, where \<open>s\<close> is the returned positive start and the accepted
  negative start \<open>w\<close> satisfies \<open>w \<le> s - N\<close> or \<open>s + N \<le> w\<close>; so the two half-open windows
  have no index in common.
\<close>

theorem get_frames_windows_disjoint:
  assumes "get_frames N vr t = Returns (frames, wrong_frames, s) t'"
  shows "\<exists>w. vr_get_batch vr (arange s (s + N)) = Inr frames \<and>
              vr_get_batch vr (arange w (w + N)) = Inr wrong_frames \<and>
              set (arange s (s + N)) = {s..<s + N} \<and>
              set (arange w (w + N)) = {w..<w + N} \<and>
              (w \<le> s - N \<or> s + N \<le> w) \<and>
              {s..<s + N} \<inter> {w..<w + N} = {}"
proof -
  from get_frames_Returns [OF assms] obtain fi wi where
    gi: "get_frames_index N (int (vr_len vr)) t = Returns (fi, wi, s) t'" and
    fr: "vr_get_batch vr fi = Inr frames" and wr: "vr_get_batch vr wi = Inr wrong_frames"
    by blast
  from get_frames_index_Returns [OF gi] obtain w t1 where
    loop: "wrong_start_loop N (int (vr_len vr)) s t1 = Returns w t'" and
    fi: "fi = arange s (s + N)" and wi: "wi = arange w (w + N)"
    by blast
  from wrong_start_loop_accepts [OF loop] have "\<not> rejected N s w" by simp
  then have sep: "w \<le> s - N \<or> s + N \<le> w"
    by (auto simp: rejected_def)
  then have "{s..<s + N} \<inter> {w..<w + N} = {}" by auto
  with fr wr fi wi sep show ?thesis
    by (intro exI [of _ w]) (simp add: arange_set)
qed

theorem get_frames_windows_disjoint_witness:
  "get_frames 5 (plain_video 15) [3, 0] = Returns ([5, 6, 7, 8, 9], [0, 1, 2, 3, 4], 5) [] \<and>
   (\<exists>w. vr_get_batch (plain_video 15) (arange 5 (5 + 5)) = Inr [5, 6, 7, 8, 9] \<and>
        vr_get_batch (plain_video 15) (arange w (w + 5)) = Inr [0, 1, 2, 3, 4] \<and>
        set (arange 5 (5 + 5)) = {5..<5 + 5} \<and>
        set (arange w (w + 5)) = {w..<w + 5} \<and>
        (w \<le> 5 - 5 \<or> 5 + 5 \<le> w) \<and>
        {5..<5 + 5} \<inter> {w..<w + 5} = {})"
proof -
  have run: "get_frames 5 (plain_video 15) [3, 0] = Returns ([5, 6, 7, 8, 9], [0, 1, 2, 3, 4], 5) []"
    by (simp add: get_frames_def get_frames_index_def wrong_start_loop.simps randint_def
        rejected_def arange_def plain_video_def upto_rec1)
  from get_frames_windows_disjoint [OF run] run show ?thesis by simp
qed

text \<open>
  C2. On a video of \<open>T\<close> frames with \<open>T \<ge> 3N\<close> (and a window length \<open>N \<ge> 0\<close>, as the
  constructor only admits 5 and 16) the sampling itself never raises, and whenever
  \<^verbatim>\<open>get_frames\<close> returns, the positive start \<open>s\<close> lies in \<open>[N div 2, T - N - N div 2]\<close>, both
  batches were fetched at contiguous index sequences of length exactly \<open>N\<close>, and the
  positive window \<open>[s, s + N)\<close> lies inside \<open>[0, T)\<close> (as does the negative one).
\<close>

theorem get_frames_positive_window:
  assumes "0 \<le> N" and "3 * N \<le> int (vr_len vr)"
  shows "(\<forall>e t'. get_frames_index N (int (vr_len vr)) t \<noteq> Raises e t') \<and>
         (\<forall>frames wrong_frames s t'.
            get_frames N vr t = Returns (frames, wrong_frames, s) t' \<longrightarrow>
              N div 2 \<le> s \<and> s \<le> int (vr_len vr) - N - N div 2 \<and>
              0 \<le> s \<and> s + N \<le> int (vr_len vr) \<and>
              vr_get_batch vr [s..s + N - 1] = Inr frames \<and>
              length [s..s + N - 1] = nat N \<and>
              (\<exists>w. 0 \<le> w \<and> w + N \<le> int (vr_len vr) \<and>
                   vr_get_batch vr [w..w + N - 1] = Inr wrong_frames \<and>
                   length [w..w + N - 1] = nat N))"
proof (intro conjI allI impI)
  fix e t'
  show "get_frames_index N (int (vr_len vr)) t \<noteq> Raises e t'"
    using assms by (rule get_frames_index_no_raise)
next
  fix frames wrong_frames s t'
  assume ret: "get_frames N vr t = Returns (frames, wrong_frames, s) t'"
  from get_frames_Returns [OF ret] obtain fi wi where
    gi: "get_frames_index N (int (vr_len vr)) t = Returns (fi, wi, s) t'" and
    fr: "vr_get_batch vr fi = Inr frames" and wr: "vr_get_batch vr wi = Inr wrong_frames"
    by blast
  from get_frames_index_Returns [OF gi] obtain w t1 where
    pos: "randint (N div 2) (int (vr_len vr) - N - N div 2) t = Returns s t1" and
    loop: "wrong_start_loop N (int (vr_len vr)) s t1 = Returns w t'" and
    fi: "fi = arange s (s + N)" and wi: "wi = arange w (w + N)"
    by blast
  from randint_range [OF pos]
  have lo: "N div 2 \<le> s" and hi: "s \<le> int (vr_len vr) - N - N div 2" by simp_all
  from wrong_start_loop_accepts [OF loop]
  have w: "0 \<le> w" "w \<le> int (vr_len vr) - N" by simp_all
  have half: "0 \<le> N div 2" using assms(1) by simp
  show "N div 2 \<le> s" by (rule lo)
  show "s \<le> int (vr_len vr) - N - N div 2" by (rule hi)
  show "0 \<le> s" using lo half by linarith
  show "s + N \<le> int (vr_len vr)" using hi half by linarith
  show "vr_get_batch vr [s..s + N - 1] = Inr frames"
    using fr fi by (simp add: arange_def)
  show "length [s..s + N - 1] = nat N" by simp
  show "\<exists>w. 0 \<le> w \<and> w + N \<le> int (vr_len vr) \<and>
          vr_get_batch vr [w..w + N - 1] = Inr wrong_frames \<and> length [w..w + N - 1] = nat N"
    using w wr wi by (intro exI [of _ w]) (simp add: arange_def)
qed

theorem get_frames_positive_window_witness:
  "(0::int) \<le> 5 \<and> 3 * 5 \<le> int (vr_len (plain_video 60)) \<and>
   get_frames 5 (plain_video 60) [51, 7] = Returns ([53, 54, 55, 56, 57], [7, 8, 9, 10, 11], 53) [] \<and>
   5 div 2 \<le> (53::int) \<and> (53::int) \<le> int (vr_len (plain_video 60)) - 5 - 5 div 2 \<and>
   vr_get_batch (plain_video 60) [53..53 + 5 - 1] = Inr [53, 54, 55, 56, 57] \<and>
   length [53..53 + 5 - 1 :: int] = nat 5"
proof -
  have n: "(0::int) \<le> 5" by simp
  have len: "3 * 5 \<le> int (vr_len (plain_video 60))" by (simp add: plain_video_def)
  have run: "get_frames 5 (plain_video 60) [51, 7] =
      Returns ([53, 54, 55, 56, 57], [7, 8, 9, 10, 11], 53) []"
    by (simp add: get_frames_def get_frames_index_def wrong_start_loop.simps randint_def
        rejected_def arange_def plain_video_def upto_rec1)
  from get_frames_positive_window [OF n len, of "[51, 7]"] run
  have "5 div 2 \<le> (53::int) \<and> (53::int) \<le> int (vr_len (plain_video 60)) - 5 - 5 div 2 \<and>
        vr_get_batch (plain_video 60) [53..53 + 5 - 1] = Inr [53, 54, 55, 56, 57] \<and>
        length [53..53 + 5 - 1 :: int] = nat 5"
    by blast
  with n len run show ?thesis by blast
qed

text \<open>
  C10. For \<open>N \<ge> 1\<close>, \<open>T \<ge> 3N\<close> and a positive start \<open>s\<close> in \<open>[N div 2, T - N - N div 2]\<close> the
  acceptance set of the rejection loop is not empty: \<open>0\<close> is accepted when \<open>s \<ge> N\<close> and
  \<open>T - N\<close> otherwise, and both lie in \<open>[0, T - N]\<close>. Hence the loop returns on every tape
  that holds an accepting draw, such tapes exist, and among the \<open>(T - N + 1) ^ n\<close> equally
  likely tapes of \<open>n\<close> draws at most \<open>(T - N) ^ n\<close> leave the loop running: the share of runs
  that have not returned after \<open>n\<close> draws tends to \<open>0\<close>, which is termination with
  probability one.
\<close>

theorem rejection_loop_terminates:
  assumes "1 \<le> N" and "3 * N \<le> T" and "N div 2 \<le> s" and "s \<le> T - N - N div 2"
  shows "(\<exists>w. w = (if N \<le> s then 0 else T - N) \<and> 0 \<le> w \<and> w \<le> T - N \<and>
              (w \<le> s - N \<or> s + N \<le> w) \<and> \<not> rejected N s w) \<and>
         (\<forall>t. (\<exists>r \<in> set t. \<not> rejected N s (int (r mod nat (T - N + 1)))) \<longrightarrow>
              (\<exists>w t'. wrong_start_loop N T s t = Returns w t')) \<and>
         (\<exists>t w t'. wrong_start_loop N T s t = Returns w t') \<and>
         (\<forall>n. card (stalled N T s n) \<le> (nat (T - N + 1) - 1) ^ n) \<and>
         (\<lambda>n. real (card (stalled N T s n)) / real (nat (T - N + 1) ^ n)) \<longlonglongrightarrow> 0"
proof -
  define w0 where "w0 = (if N \<le> s then 0 else T - N)"
  have NT: "N \<le> T" using assms(1,2) by linarith
  have r0: "0 \<le> w0" "w0 \<le> T - N" using NT by (simp_all add: w0_def)
  have sep: "w0 \<le> s - N \<or> s + N \<le> w0" using assms(1,2) by (auto simp: w0_def)
  then have acc: "\<not> rejected N s w0" by (auto simp: rejected_def)
  have draw: "int (nat w0 mod nat (T - N + 1)) = w0" using r0 by simp
  have ret: "\<exists>w t'. wrong_start_loop N T s t = Returns w t'"
    if "\<exists>r \<in> set t. \<not> rejected N s (int (r mod nat (T - N + 1)))" for t
    using NT that by (rule wrong_start_loop_returns)
  have "\<exists>w t'. wrong_start_loop N T s [nat w0] = Returns w t'"
    using acc draw by (intro ret) simp
  then have ex: "\<exists>t w t'. wrong_start_loop N T s t = Returns w t'" by blast
  have cnt: "card (stalled N T s n) \<le> (nat (T - N + 1) - 1) ^ n" for n
    using stalled_bound [OF NT r0 acc, of n] by simp
  have lim: "(\<lambda>n. real (card (stalled N T s n)) / real (nat (T - N + 1) ^ n)) \<longlonglongrightarrow> 0"
    using NT r0 acc by (rule stalled_fraction_tends_to_0)
  have first: "\<exists>w. w = (if N \<le> s then 0 else T - N) \<and> 0 \<le> w \<and> w \<le> T - N \<and>
      (w \<le> s - N \<or> s + N \<le> w) \<and> \<not> rejected N s w"
    using r0 sep acc by (intro exI [of _ w0]) (simp add: w0_def)
  from first ret ex cnt lim show ?thesis by blast
qed

theorem rejection_loop_terminates_witness:
  "(1::int) \<le> 5 \<and> 3 * 5 \<le> (15::int) \<and> 5 div 2 \<le> (2::int) \<and> (2::int) \<le> 15 - 5 - 5 div 2 \<and>
   \<not> rejected 5 2 (15 - 5) \<and>
   wrong_start_loop 5 15 2 [3, 10] = Returns 10 [] \<and>
   (\<exists>t w t'. wrong_start_loop 5 15 2 t = Returns w t')"
proof -
  have h: "(1::int) \<le> 5" "3 * 5 \<le> (15::int)" "5 div 2 \<le> (2::int)" "(2::int) \<le> 15 - 5 - 5 div 2"
    by simp_all
  have run: "wrong_start_loop 5 15 2 [3, 10] = Returns 10 []"
    by (simp add: wrong_start_loop.simps randint_def rejected_def)
  from rejection_loop_terminates [OF h]
  have "\<not> rejected 5 2 (15 - 5)" and "\<exists>t w t'. wrong_start_loop 5 15 2 t = Returns w t'"
    by simp_all
  with h run show ?thesis by simp
qed

section \<open>Claims about construction\<close>

lemma rstrip_decompose:
  "\<exists>ws. s = rstrip s @ ws \<and> (\<forall>c \<in> set ws. py_isspace c) \<and>
        (rstrip s = [] \<or> \<not> py_isspace (last (rstrip s)))"
proof -
  let ?ws = "rev (takeWhile py_isspace (rev s))"
  have "rev (takeWhile py_isspace (rev s) @ dropWhile py_isspace (rev s)) = rev (rev s)"
    by (simp only: takeWhile_dropWhile_id)
  then have "rev (dropWhile py_isspace (rev s)) @ ?ws = s"
    by (simp only: rev_append rev_rev_ident)
  then have split: "s = rstrip s @ ?ws" by (simp add: rstrip_def)
  have sp: "\<forall>c \<in> set ?ws. py_isspace c" by (auto dest: set_takeWhileD)
  have "rstrip s = [] \<or> \<not> py_isspace (last (rstrip s))"
  proof (cases "dropWhile py_isspace (rev s)")
    case Nil
    then show ?thesis by (simp add: rstrip_def)
  next
    case (Cons c cs)
    then have "\<not> py_isspace (hd (dropWhile py_isspace (rev s)))"
      using hd_dropWhile [of py_isspace "rev s"] by simp
    with Cons show ?thesis by (simp add: rstrip_def)
  qed
  with split sp show ?thesis by blast
qed

lemma init_Inr:
  assumes "init W train_data_dir cfg = Inr self"
  shows "resolve_paths W train_data_dir cfg = Inr (video_paths self) \<and>
         num_frames self = data_num_frames cfg \<and>
         (data_num_frames cfg = 16 \<and> mel_window_length self = 52 \<or>
          data_num_frames cfg = 5 \<and> mel_window_length self = 16) \<and>
         worker_id self = 0 \<and> image_processors self 0 \<noteq> None"
  using assms
  by (auto simp: init_def split: sum.splits if_splits option.splits)

text \<open>
  C6. A dataset constructed with \<^verbatim>\<open>num_frames = 16\<close> has \<^verbatim>\<open>mel_window_length = 52\<close>, one
  constructed with \<^verbatim>\<open>num_frames = 5\<close> has \<^verbatim>\<open>mel_window_length = 16\<close>, and with any other value
  the constructor raises and yields no dataset: \<^verbatim>\<open>NotImplementedError\<close>, unless resolving the
  index has raised before.
\<close>

theorem init_mel_window_length:
  "(\<forall>self. init W train_data_dir cfg = Inr self \<longrightarrow>
       num_frames self = data_num_frames cfg \<and>
       (data_num_frames cfg = 16 \<longrightarrow> mel_window_length self = 52) \<and>
       (data_num_frames cfg = 5 \<longrightarrow> mel_window_length self = 16)) \<and>
   (data_num_frames cfg \<noteq> 16 \<and> data_num_frames cfg \<noteq> 5 \<longrightarrow>
       (\<exists>e. init W train_data_dir cfg = Inl e) \<and>
       (\<forall>paths. resolve_paths W train_data_dir cfg = Inr paths \<longrightarrow>
          init W train_data_dir cfg =
            Inl (Exn ''NotImplementedError'' ''Only support 16 and 5 frames now'')))"
proof (intro conjI allI impI)
  fix self assume ok: "init W train_data_dir cfg = Inr self"
  from init_Inr [OF ok] show "num_frames self = data_num_frames cfg" by simp
  from init_Inr [OF ok] show "mel_window_length self = 52" if "data_num_frames cfg = 16"
    using that by auto
  from init_Inr [OF ok] show "mel_window_length self = 16" if "data_num_frames cfg = 5"
    using that by auto
next
  assume other: "data_num_frames cfg \<noteq> 16 \<and> data_num_frames cfg \<noteq> 5"
  then show "\<exists>e. init W train_data_dir cfg = Inl e"
    by (cases "resolve_paths W train_data_dir cfg") (auto simp: init_def)
  fix paths assume "resolve_paths W train_data_dir cfg = Inr paths"
  with other show "init W train_data_dir cfg =
      Inl (Exn ''NotImplementedError'' ''Only support 16 and 5 frames now'')"
    by (simp add: init_def)
qed

theorem init_mel_window_length_witness:
  "(\<exists>self. init demo_world ''clips'' (demo_config 16 ''list.txt'' False) = Inr self \<and>
      num_frames self = 16 \<and> mel_window_length self = 52) \<and>
   (\<exists>self. init demo_world ''clips'' (demo_config 5 ''list.txt'' False) = Inr self \<and>
      num_frames self = 5 \<and> mel_window_length self = 16) \<and>
   init demo_world ''clips'' (demo_config 8 ''list.txt'' False) =
     Inl (Exn ''NotImplementedError'' ''Only support 16 and 5 frames now'')"
proof -
  have paths: "resolve_paths demo_world ''clips'' (demo_config N ''list.txt'' False) =
      Inr [''bad.mp4'', ''good.mp4'', ''short.mp4'']" for N
    by (simp add: resolve_paths_def demo_world_def demo_config_def rstrip_def py_isspace_def)
  have ok: "\<exists>self. init demo_world ''clips'' (demo_config N ''list.txt'' False) = Inr self"
    if "N = 16 \<or> N = 5" for N
    using that by (auto simp: init_def paths) (simp_all add: demo_world_def demo_config_def)
  have n: "data_num_frames (demo_config N ''list.txt'' False) = N" for N
    by (simp add: demo_config_def)
  have inst: "(\<forall>self. init demo_world ''clips'' (demo_config N ''list.txt'' False) = Inr self \<longrightarrow>
       num_frames self = data_num_frames (demo_config N ''list.txt'' False) \<and>
       (data_num_frames (demo_config N ''list.txt'' False) = 16 \<longrightarrow> mel_window_length self = 52) \<and>
       (data_num_frames (demo_config N ''list.txt'' False) = 5 \<longrightarrow> mel_window_length self = 16)) \<and>
   (data_num_frames (demo_config N ''list.txt'' False) \<noteq> 16 \<and>
    data_num_frames (demo_config N ''list.txt'' False) \<noteq> 5 \<longrightarrow>
       (\<exists>e. init demo_world ''clips'' (demo_config N ''list.txt'' False) = Inl e) \<and>
       (\<forall>paths. resolve_paths demo_world ''clips'' (demo_config N ''list.txt'' False) = Inr paths \<longrightarrow>
          init demo_world ''clips'' (demo_config N ''list.txt'' False) =
            Inl (Exn ''NotImplementedError'' ''Only support 16 and 5 frames now'')))" for N
    by (rule init_mel_window_length)
  from ok [of 16] inst [of 16] n [of 16]
  have a: "\<exists>self. init demo_world ''clips'' (demo_config 16 ''list.txt'' False) = Inr self \<and>
      num_frames self = 16 \<and> mel_window_length self = 52"
    by auto
  from ok [of 5] inst [of 5] n [of 5]
  have b: "\<exists>self. init demo_world ''clips'' (demo_config 5 ''list.txt'' False) = Inr self \<and>
      num_frames self = 5 \<and> mel_window_length self = 16"
    by auto
  from inst [of 8] n [of 8] paths [of 8]
  have c: "init demo_world ''clips'' (demo_config 8 ''list.txt'' False) =
      Inl (Exn ''NotImplementedError'' ''Only support 16 and 5 frames now'')"
    by simp
  from a b c show ?thesis by blast
qed

text \<open>
  C7. With a non-empty manifest path the index is the manifest's lines, in order, each
  without its trailing whitespace (the longest suffix of whitespace characters is cut, the
  newline among them). Otherwise, with a non-empty directory path, the index holds the
  directory's entries that end in \<open>.mp4\<close>, in listing order, each joined to the directory
  path. With both empty the constructor raises \<^verbatim>\<open>ValueError\<close>. The index of a constructed
  dataset is the list so resolved, and \<^verbatim>\<open>len\<close> is its length.
\<close>

theorem init_index:
  "(\<forall>lines. data_train_fileslist cfg \<noteq> [] \<and> open_lines W (data_train_fileslist cfg) = Inr lines \<longrightarrow>
       resolve_paths W train_data_dir cfg = Inr (map rstrip lines) \<and>
       length (map rstrip lines) = length lines \<and>
       (\<forall>i < length lines. \<exists>ws. lines ! i = map rstrip lines ! i @ ws \<and>
          (\<forall>c \<in> set ws. py_isspace c) \<and>
          (map rstrip lines ! i = [] \<or> \<not> py_isspace (last (map rstrip lines ! i))))) \<and>
   (\<forall>files. data_train_fileslist cfg = [] \<and> train_data_dir \<noteq> [] \<and>
        listdir W train_data_dir = Inr files \<longrightarrow>
       resolve_paths W train_data_dir cfg =
         Inr (map (os_path_join train_data_dir) (filter (\<lambda>file. endswith file ''.mp4'') files))) \<and>
   (data_train_fileslist cfg = [] \<and> train_data_dir = [] \<longrightarrow>
       init W train_data_dir cfg =
         Inl (Exn ''ValueError'' ''data_dir and fileslist cannot be both empty'')) \<and>
   (\<forall>self. init W train_data_dir cfg = Inr self \<longrightarrow>
       resolve_paths W train_data_dir cfg = Inr (video_paths self) \<and>
       len self = int (length (video_paths self)))"
proof (intro conjI allI impI)
  fix lines
  assume h: "data_train_fileslist cfg \<noteq> [] \<and> open_lines W (data_train_fileslist cfg) = Inr lines"
  then show "resolve_paths W train_data_dir cfg = Inr (map rstrip lines)"
    by (simp add: resolve_paths_def)
  show "length (map rstrip lines) = length lines" by simp
  fix i assume "i < length lines"
  then show "\<exists>ws. lines ! i = map rstrip lines ! i @ ws \<and> (\<forall>c \<in> set ws. py_isspace c) \<and>
      (map rstrip lines ! i = [] \<or> \<not> py_isspace (last (map rstrip lines ! i)))"
    using rstrip_decompose [of "lines ! i"] by simp
next
  fix files
  assume "data_train_fileslist cfg = [] \<and> train_data_dir \<noteq> [] \<and>
    listdir W train_data_dir = Inr files"
  then show "resolve_paths W train_data_dir cfg =
      Inr (map (os_path_join train_data_dir) (filter (\<lambda>file. endswith file ''.mp4'') files))"
    by (simp add: resolve_paths_def)
next
  assume "data_train_fileslist cfg = [] \<and> train_data_dir = []"
  then show "init W train_data_dir cfg =
      Inl (Exn ''ValueError'' ''data_dir and fileslist cannot be both empty'')"
    by (simp add: init_def resolve_paths_def)
next
  fix self assume ok: "init W train_data_dir cfg = Inr self"
  from init_Inr [OF ok] show "resolve_paths W train_data_dir cfg = Inr (video_paths self)"
    by simp
  show "len self = int (length (video_paths self))" by (simp add: len_def)
qed

theorem init_index_witness:
  "(\<exists>self. init demo_world ''clips'' (demo_config 5 ''list.txt'' False) = Inr self \<and>
      video_paths self = [''bad.mp4'', ''good.mp4'', ''short.mp4''] \<and> len self = 3) \<and>
   (\<exists>self. init demo_world ''clips'' (demo_config 5 [] False) = Inr self \<and>
      video_paths self = [''clips/good.mp4'', ''clips/x.mp4.mp4''] \<and> len self = 2) \<and>
   init demo_world [] (demo_config 5 [] False) =
     Inl (Exn ''ValueError'' ''data_dir and fileslist cannot be both empty'')"
proof -
  have cfg: "data_train_fileslist (demo_config 5 m False) = m" for m
    by (simp add: demo_config_def)
  have ok: "\<exists>self. init demo_world d (demo_config 5 m False) = Inr self"
    if "resolve_paths demo_world d (demo_config 5 m False) = Inr paths" for d m paths
    using that by (auto simp: init_def) (simp_all add: demo_world_def demo_config_def)
  have lines: "open_lines demo_world ''list.txt'' =
      Inr [''bad.mp4'' @ [CHR 0x0A], ''good.mp4 '' @ [CHR 0x09, CHR 0x0A], ''short.mp4'']"
    by (simp add: demo_world_def)
  have strip: "map rstrip [''bad.mp4'' @ [CHR 0x0A], ''good.mp4 '' @ [CHR 0x09, CHR 0x0A], ''short.mp4'']
      = [''bad.mp4'', ''good.mp4'', ''short.mp4'']"
    by (simp add: rstrip_def py_isspace_def)
  from init_index [where cfg = "demo_config 5 ''list.txt'' False" and W = demo_world and train_data_dir = "''clips''"] cfg [of "''list.txt''"] lines strip
  have p1: "resolve_paths demo_world ''clips'' (demo_config 5 ''list.txt'' False) =
      Inr [''bad.mp4'', ''good.mp4'', ''short.mp4'']"
    by simp
  from ok [OF p1] obtain s1 where
    s1: "init demo_world ''clips'' (demo_config 5 ''list.txt'' False) = Inr s1" ..
  from init_index [where cfg = "demo_config 5 ''list.txt'' False" and W = demo_world and train_data_dir = "''clips''"] s1
  have "resolve_paths demo_world ''clips'' (demo_config 5 ''list.txt'' False) = Inr (video_paths s1)"
    and l1: "len s1 = int (length (video_paths s1))"
    by blast+
  with p1 have v1: "video_paths s1 = [''bad.mp4'', ''good.mp4'', ''short.mp4'']" by simp
  with l1 have a: "video_paths s1 = [''bad.mp4'', ''good.mp4'', ''short.mp4''] \<and> len s1 = 3"
    by simp
  have entries: "listdir demo_world ''clips'' = Inr [''good.mp4'', ''notes.txt'', ''x.mp4.mp4'']"
    by (simp add: demo_world_def)
  have joined: "map (os_path_join ''clips'')
      (filter (\<lambda>file. endswith file ''.mp4'') [''good.mp4'', ''notes.txt'', ''x.mp4.mp4''])
      = [''clips/good.mp4'', ''clips/x.mp4.mp4'']"
    by (simp add: endswith_def startswith_def os_path_join_def)
  from init_index [where cfg = "demo_config 5 [] False" and W = demo_world and train_data_dir = "''clips''"] cfg [of "[]"] entries joined
  have p2: "resolve_paths demo_world ''clips'' (demo_config 5 [] False) =
      Inr [''clips/good.mp4'', ''clips/x.mp4.mp4'']"
    by simp
  from ok [OF p2] obtain s2 where
    s2: "init demo_world ''clips'' (demo_config 5 [] False) = Inr s2" ..
  from init_index [where cfg = "demo_config 5 [] False" and W = demo_world and train_data_dir = "''clips''"] s2
  have "resolve_paths demo_world ''clips'' (demo_config 5 [] False) = Inr (video_paths s2)"
    and l2: "len s2 = int (length (video_paths s2))"
    by blast+
  with p2 have v2: "video_paths s2 = [''clips/good.mp4'', ''clips/x.mp4.mp4'']" by simp
  with l2 have b: "video_paths s2 = [''clips/good.mp4'', ''clips/x.mp4.mp4''] \<and> len s2 = 2"
    by simp
  from init_index [where cfg = "demo_config 5 [] False" and W = demo_world and train_data_dir = "[]"] cfg [of "[]"]
  have c: "init demo_world [] (demo_config 5 [] False) =
      Inl (Exn ''ValueError'' ''data_dir and fileslist cannot be both empty'')"
    by simp
  from s1 a s2 b c show ?thesis by blast
qed


section \<open>Facts about the retry loop\<close>





lemma try_body_Broke:
  assumes "try_body W self ip loc st = Broke smp st'"
  shows "\<exists>idx t1 vr cf rf t2.
           randint 0 (len self - 1) (rng st) = Returns idx t1 \<and>
           py_index (video_paths self) idx = Inr (video_path smp) \<and>
           VideoReader W (video_path smp) (worker_id self) = Inr vr \<and>
           3 * num_frames self \<le> int (vr_len vr) \<and>
           get_frames (num_frames self) vr t1 = Returns (cf, rf, start_idx smp) t2 \<and>
           load_mel W self (video_path smp) (start_idx smp) (st\<lparr>rng := t2\<rparr>) = Returns (Some (mel smp)) st' \<and>
           process_frames ip self vr cf rf = Inr (gt smp, masked_gt smp, sample.mask smp, ref smp)"
  using assms
  by (auto simp: try_body_def Let_def
      split: outcome.splits sum.splits if_splits option.splits prod.splits)

lemma getitem_loop_Returns:
  "getitem_loop W self ip loc st = Returns smp st' \<Longrightarrow>
     \<exists>loc0 st0. try_body W self ip loc0 st0 = Broke smp st'"
proof (induction W self ip loc st rule: getitem_loop.induct)
  case (1 W self ip loc st)
  show ?case
  proof (cases "try_body W self ip loc st")
    case (Broke s s')
    with "1.prems" show ?thesis by (subst (asm) getitem_loop.simps) auto
  next
    case (Continued loc' s')
    with "1.prems" "1.IH"(1) [OF Continued] show ?thesis
      by (subst (asm) getitem_loop.simps) auto
  next
    case (Excepted e loc' s')
    with "1.prems" "1.IH"(2) [OF Excepted] show ?thesis
      by (subst (asm) getitem_loop.simps) (auto split: outcome.splits if_splits)
  next
    case Starved
    with "1.prems" show ?thesis by (subst (asm) getitem_loop.simps) auto
  qed
qed

lemma same_bindings_update:
  "same_bindings loc loc2 \<Longrightarrow> loc\<lparr>l_idx := i\<rparr> = loc2\<lparr>l_idx := i\<rparr>"
  by (cases loc, cases loc2) (simp add: same_bindings_def)

lemma handler_same_bindings:
  "same_bindings loc loc2 \<Longrightarrow> handler W e loc st = handler W e loc2 st"
  by (auto simp: handler_def same_bindings_def split: option.splits sum.splits)

lemma try_body_same_bindings:
  assumes "same_bindings loc loc2"
  shows "(case try_body W self ip loc st of
            Excepted e l s \<Rightarrow> \<exists>l2. try_body W self ip loc2 st = Excepted e l2 s \<and> same_bindings l l2
          | r \<Rightarrow> try_body W self ip loc2 st = r)"
proof (cases "randint 0 (len self - 1) (rng st)")
  case (Returns idx t1)
  have "try_body W self ip loc st = try_body W self ip loc2 st"
    unfolding try_body_def Returns outcome.case Let_def same_bindings_update [OF assms, of idx] ..
  then show ?thesis
    by (auto simp: same_bindings_def split: round.splits)
next
  case (Raises e t)
  then show ?thesis using assms by (simp add: try_body_def)
next
  case NoReturn
  then show ?thesis by (simp add: try_body_def)
qed

lemma getitem_loop_same_bindings:
  "same_bindings loc loc2 \<Longrightarrow> getitem_loop W self ip loc st = getitem_loop W self ip loc2 st"
proof (induction W self ip loc st arbitrary: loc2 rule: getitem_loop.induct)
  case (1 W self ip loc st)
  note sim = try_body_same_bindings [OF "1.prems", of W self ip st]
  show ?case
  proof (cases "try_body W self ip loc st")
    case (Broke s s')
    with sim have "try_body W self ip loc2 st = Broke s s'" by simp
    with Broke show ?thesis by (simp add: getitem_loop.simps [of W self ip loc] getitem_loop.simps [of W self ip loc2])
  next
    case (Continued loc' s')
    with sim have "try_body W self ip loc2 st = Continued loc' s'" by simp
    with Continued show ?thesis by (simp add: getitem_loop.simps [of W self ip loc st] getitem_loop.simps [of W self ip loc2 st])
  next
    case (Excepted e loc' s')
    with sim obtain l2 where r2: "try_body W self ip loc2 st = Excepted e l2 s'"
      and sb: "same_bindings loc' l2" by auto
    have h: "handler W e loc' s' = handler W e l2 s'" using sb by (rule handler_same_bindings)
    show ?thesis
    proof (cases "handler W e l2 s'")
      case (Returns u s'')
      show ?thesis
      proof (cases "length (rng s'') < length (rng st)")
        case True
        from "1.IH"(2) [OF Excepted h [unfolded Returns] True sb]
        show ?thesis using Excepted r2 h Returns True
          by (simp add: getitem_loop.simps [of W self ip loc st] getitem_loop.simps [of W self ip loc2 st])
      next
        case False
        then show ?thesis using Excepted r2 h Returns
          by (simp add: getitem_loop.simps [of W self ip loc st] getitem_loop.simps [of W self ip loc2 st])
      qed
    next
      case (Raises e' s'')
      then show ?thesis using Excepted r2 h
        by (simp add: getitem_loop.simps [of W self ip loc st] getitem_loop.simps [of W self ip loc2 st])
    next
      case NoReturn
      then show ?thesis using Excepted r2 h
        by (simp add: getitem_loop.simps [of W self ip loc st] getitem_loop.simps [of W self ip loc2 st])
    qed
  next
    case Starved
    with sim have "try_body W self ip loc2 st = Starved" by simp
    with Starved show ?thesis by (simp add: getitem_loop.simps [of W self ip loc st] getitem_loop.simps [of W self ip loc2 st])
  qed
qed









lemma get_frames_window_facts:
  assumes "get_frames N vr t = Returns (frames, wrong_frames, s) t'"
  shows "N div 2 \<le> s \<and> s \<le> int (vr_len vr) - N - N div 2 \<and>
         (\<exists>w. 0 \<le> w \<and> w \<le> int (vr_len vr) - N \<and> \<not> rejected N s w \<and>
              vr_get_batch vr [s..s + N - 1] = Inr frames \<and>
              vr_get_batch vr [w..w + N - 1] = Inr wrong_frames)"
proof -
  from get_frames_Returns [OF assms] obtain fi wi where
    gi: "get_frames_index N (int (vr_len vr)) t = Returns (fi, wi, s) t'" and
    fr: "vr_get_batch vr fi = Inr frames" and wr: "vr_get_batch vr wi = Inr wrong_frames"
    by blast
  from get_frames_index_Returns [OF gi] obtain w t1 where
    pos: "randint (N div 2) (int (vr_len vr) - N - N div 2) t = Returns s t1" and
    loop: "wrong_start_loop N (int (vr_len vr)) s t1 = Returns w t'" and
    fi: "fi = arange s (s + N)" and wi: "wi = arange w (w + N)"
    by blast
  from randint_range [OF pos] wrong_start_loop_accepts [OF loop] fr wr fi wi
  show ?thesis by (auto simp: arange_def)
qed

lemma getitem_Returns:
  assumes "getitem W self idx st = Returns smp st'"
  shows "\<exists>ip loc0 st0. image_processors self (worker_id self) = Some ip \<and>
           try_body W self ip loc0 st0 = Broke smp st'"
  using assms
  by (auto simp: getitem_def split: option.splits dest: getitem_loop_Returns)




section \<open>Claims about the retry loop\<close>

text \<open>
  C8. The index passed to \<^verbatim>\<open>__getitem__\<close> has no influence on the call: for any two
  arguments, on the same generator, files and output, the outcome is the same (the same
  record and the same state after it, the same exception, or no return). Every round
  overwrites \<^verbatim>\<open>idx\<close> with a draw from \<open>[0, len - 1]\<close> before it is read, so the record
  returned is that of a path of the index at a position in that range.
\<close>

theorem getitem_ignores_idx:
  "getitem W self i st = getitem W self j st \<and>
   (\<forall>smp st'. getitem W self i st = Returns smp st' \<longrightarrow>
      (\<exists>k. 0 \<le> k \<and> k \<le> len self - 1 \<and> py_index (video_paths self) k = Inr (video_path smp)))"
proof
  show "getitem W self i st = getitem W self j st"
    by (auto simp: getitem_def same_bindings_def intro!: getitem_loop_same_bindings
        split: option.splits)
  show "\<forall>smp st'. getitem W self i st = Returns smp st' \<longrightarrow>
      (\<exists>k. 0 \<le> k \<and> k \<le> len self - 1 \<and> py_index (video_paths self) k = Inr (video_path smp))"
  proof (intro allI impI)
    fix smp st' assume "getitem W self i st = Returns smp st'"
    from getitem_Returns [OF this] obtain ip loc0 st0 where
      "try_body W self ip loc0 st0 = Broke smp st'" by blast
    from try_body_Broke [OF this] obtain k t1 where
      "randint 0 (len self - 1) (rng st0) = Returns k t1"
      "py_index (video_paths self) k = Inr (video_path smp)" by blast
    with randint_range [of 0 "len self - 1" "rng st0" k t1]
    show "\<exists>k. 0 \<le> k \<and> k \<le> len self - 1 \<and> py_index (video_paths self) k = Inr (video_path smp)"
      by blast
  qed
qed


section \<open>Runs in the demonstration world\<close>

lemmas run_simps =
  getitem_def getitem_loop.simps try_body_def handler_def load_mel_def process_frames_def
  get_frames_def get_frames_index_def wrong_start_loop.simps randint_def rejected_def arange_def
  py_index_def len_def print_error_def error_line_def demo_world_def demo_dataset_def demo_processor_def
  plain_video_def upto_rec1 Let_def

lemma demo_init_one:
  "init demo_world [] (demo_config 5 ''one.txt'' audio) = Inr (demo_dataset [''good.mp4''] audio)"
  by (simp add: init_def resolve_paths_def demo_world_def demo_config_def demo_dataset_def
      rstrip_def py_isspace_def)

lemma demo_init_list:
  "init demo_world [] (demo_config 5 ''list.txt'' audio) =
     Inr (demo_dataset [''bad.mp4'', ''good.mp4'', ''short.mp4''] audio)"
  by (simp add: init_def resolve_paths_def demo_world_def demo_config_def demo_dataset_def
      rstrip_def py_isspace_def)

lemma demo_run_53:
  "getitem demo_world (demo_dataset [''good.mp4''] False) 0
     \<lparr>rng = [0, 51, 7], fs = Map.empty, stdout = []\<rparr> =
   Returns
     \<lparr>gt = [53, 54, 55, 56, 57], masked_gt = [- 53, - 54, - 55, - 56, - 57],
      ref = [7, 8, 9, 10, 11], mel = [], sample.mask = [1, 1, 1, 1, 1],
      video_path = ''good.mp4'', start_idx = 53\<rparr>
     \<lparr>rng = [], fs = Map.empty, stdout = []\<rparr>"
  by (simp add: run_simps)

lemma demo_run_retry:
  "getitem demo_world (demo_dataset [''bad.mp4'', ''good.mp4'', ''short.mp4''] False) i
     \<lparr>rng = [0, 0, 2, 1, 0, 30], fs = Map.empty, stdout = []\<rparr> =
   Returns
     \<lparr>gt = [2, 3, 4, 5, 6], masked_gt = [- 2, - 3, - 4, - 5, - 6],
      ref = [30, 31, 32, 33, 34], mel = [], sample.mask = [1, 1, 1, 1, 1],
      video_path = ''good.mp4'', start_idx = 2\<rparr>
     \<lparr>rng = [], fs = Map.empty,
      stdout = [''DECORDError - cannot open the video - bad.mp4'',
                ''DECORDError - cannot open the video - bad.mp4'']\<rparr>"
  by (simp add: run_simps)

theorem getitem_ignores_idx_witness:
  "getitem demo_world (demo_dataset [''bad.mp4'', ''good.mp4'', ''short.mp4''] False) 7
     \<lparr>rng = [0, 0, 2, 1, 0, 30], fs = Map.empty, stdout = []\<rparr> =
   getitem demo_world (demo_dataset [''bad.mp4'', ''good.mp4'', ''short.mp4''] False) 0
     \<lparr>rng = [0, 0, 2, 1, 0, 30], fs = Map.empty, stdout = []\<rparr> \<and>
   (\<exists>smp st'.
      getitem demo_world (demo_dataset [''bad.mp4'', ''good.mp4'', ''short.mp4''] False) 7
        \<lparr>rng = [0, 0, 2, 1, 0, 30], fs = Map.empty, stdout = []\<rparr> = Returns smp st' \<and>
      video_path smp = ''good.mp4'' \<and>
      (\<exists>k. 0 \<le> k \<and> k \<le> len (demo_dataset [''bad.mp4'', ''good.mp4'', ''short.mp4''] False) - 1 \<and>
           py_index (video_paths (demo_dataset [''bad.mp4'', ''good.mp4'', ''short.mp4''] False)) k =
             Inr (video_path smp)))"
proof -
  let ?ds = "demo_dataset [''bad.mp4'', ''good.mp4'', ''short.mp4''] False"
  let ?st = "\<lparr>rng = [0, 0, 2, 1, 0, 30], fs = Map.empty, stdout = []\<rparr> :: nat list state"
  note inst = getitem_ignores_idx [of demo_world ?ds 7 ?st 0]
  from inst have eq: "getitem demo_world ?ds 7 ?st = getitem demo_world ?ds 0 ?st" by (rule conjunct1)
  from inst demo_run_retry [of 7]
  have "\<exists>k. 0 \<le> k \<and> k \<le> len ?ds - 1 \<and> py_index (video_paths ?ds) k = Inr ''good.mp4''"
    by (metis sample.select_convs(6))
  with eq demo_run_retry [of 7] show ?thesis by simp
qed







text \<open>
  C4, as stated, fails in its last bound: with 60 frames and a window of 5 the positive
  start is drawn from \<open>[5 div 2, 60 - 5 - 5 div 2] = [2, 53]\<close>, and 53 is reached. The
  dataset is the one the constructor builds from the one-line manifest, its only video
  has 60 frames, audio is off, and the call returns a record with start 53.
\<close>

theorem one_video_start_counterexample:
  "init demo_world [] (demo_config 5 ''one.txt'' False) = Inr (demo_dataset [''good.mp4''] False) \<and>
   VideoReader demo_world ''good.mp4'' 0 = Inr (plain_video 60) \<and>
   vr_len (plain_video 60) = 60 \<and>
   getitem demo_world (demo_dataset [''good.mp4''] False) 0
     \<lparr>rng = [0, 51, 7], fs = Map.empty, stdout = []\<rparr> =
   Returns
     \<lparr>gt = [53, 54, 55, 56, 57], masked_gt = [- 53, - 54, - 55, - 56, - 57],
      ref = [7, 8, 9, 10, 11], mel = [], sample.mask = [1, 1, 1, 1, 1],
      video_path = ''good.mp4'', start_idx = 53\<rparr>
     \<lparr>rng = [], fs = Map.empty, stdout = []\<rparr> \<and>
   \<not> (53 \<le> (52::int))"
proof -
  have "VideoReader demo_world ''good.mp4'' 0 = Inr (plain_video 60)"
    by (simp add: demo_world_def)
  moreover have "vr_len (plain_video 60) = 60" by (simp add: plain_video_def)
  ultimately show ?thesis using demo_init_one [of False] demo_run_53 by simp
qed

text \<open>
  C4, amended. For a dataset of one video of 60 frames, with windows of 5 frames and
  audio off, where the decoder returns one frame per index asked and the image processor
  one tensor per frame: every record returned has \<open>mel = []\<close>, exactly 5 frames in \<open>gt\<close> and
  in \<open>ref\<close>, and a start in \<open>[2, 53]\<close>.
\<close>

theorem one_video_records:
  assumes "video_paths self = [p]" and "num_frames self = 5" and "\<not> load_audio_data self"
    and "\<forall>wid vr. VideoReader W p wid = Inr vr \<longrightarrow>
           vr_len vr = 60 \<and> (\<forall>indices frames. vr_get_batch vr indices = Inr frames \<longrightarrow>
                               length frames = length indices)"
    and "\<forall>ip frames affine a b c r. image_processors self (worker_id self) = Some ip \<longrightarrow>
           (prepare_masks_and_masked_images ip frames affine = Inr (a, b, c) \<longrightarrow>
              length a = length frames) \<and>
           (process_images ip frames = Inr r \<longrightarrow> length r = length frames)"
    and "getitem W self idx st = Returns smp st'"
  shows "mel smp = [] \<and> length (gt smp) = 5 \<and> length (ref smp) = 5 \<and>
         2 \<le> start_idx smp \<and> start_idx smp \<le> 53 \<and> video_path smp = p"
proof -
  from getitem_Returns [OF assms(6)] obtain ip loc0 st0 where
    ip: "image_processors self (worker_id self) = Some ip" and
    b: "try_body W self ip loc0 st0 = Broke smp st'" by blast
  from try_body_Broke [OF b] obtain k t1 vr cf rf t2 where
    path: "py_index (video_paths self) k = Inr (video_path smp)" and
    vr: "VideoReader W (video_path smp) (worker_id self) = Inr vr" and
    gf: "get_frames (num_frames self) vr t1 = Returns (cf, rf, start_idx smp) t2" and
    lm: "load_mel W self (video_path smp) (start_idx smp) (st0\<lparr>rng := t2\<rparr>) =
           Returns (Some (mel smp)) st'" and
    pf: "process_frames ip self vr cf rf = Inr (gt smp, masked_gt smp, sample.mask smp, ref smp)"
    by blast
  from path assms(1) have p: "video_path smp = p"
    by (auto simp: py_index_def Let_def split: if_splits)
  from vr p assms(4) have len: "vr_len vr = 60" and
    batch: "\<And>indices frames. vr_get_batch vr indices = Inr frames \<Longrightarrow> length frames = length indices"
    by blast+
  from get_frames_window_facts [OF gf] len assms(2) obtain w where
    s: "2 \<le> start_idx smp" "start_idx smp \<le> 53" and
    cf: "vr_get_batch vr [start_idx smp..start_idx smp + 5 - 1] = Inr cf" and
    rf: "vr_get_batch vr [w..w + 5 - 1] = Inr rf"
    by auto
  from batch [OF cf] have lcf: "length cf = 5" by simp
  from batch [OF rf] have lrf: "length rf = 5" by simp
  from lm assms(3) have m: "mel smp = []" by (simp add: load_mel_def)
  from assms(5) ip have
    prep: "\<And>frames affine a b c. prepare_masks_and_masked_images ip frames affine = Inr (a, b, c) \<Longrightarrow>
             length a = length frames" and
    proc: "\<And>frames r. process_images ip frames = Inr r \<Longrightarrow> length r = length frames"
    by blast+
  from pf obtain a b c where
    g: "prepare_masks_and_masked_images ip cf False = Inr (gt smp, a, b)" and
    r: "(\<exists>a' b'. prepare_masks_and_masked_images ip rf False = Inr (ref smp, a', b')) \<or>
        process_images ip rf = Inr (ref smp)"
    by (auto simp: process_frames_def split: sum.splits if_splits option.splits prod.splits)
  from prep [OF g] lcf have lg: "length (gt smp) = 5" by simp
  from r prep proc lrf have lr: "length (ref smp) = 5" by auto
  from m lg lr s p show ?thesis by simp
qed

theorem one_video_records_witness:
  "video_paths (demo_dataset [''good.mp4''] False) = [''good.mp4''] \<and>
   num_frames (demo_dataset [''good.mp4''] False) = 5 \<and>
   \<not> load_audio_data (demo_dataset [''good.mp4''] False) \<and>
   VideoReader demo_world ''good.mp4'' 0 = Inr (plain_video 60) \<and>
   (\<exists>smp st'.
      getitem demo_world (demo_dataset [''good.mp4''] False) 0
        \<lparr>rng = [0, 51, 7], fs = Map.empty, stdout = []\<rparr> = Returns smp st' \<and>
      mel smp = [] \<and> length (gt smp) = 5 \<and> length (ref smp) = 5 \<and>
      2 \<le> start_idx smp \<and> start_idx smp \<le> 53 \<and> video_path smp = ''good.mp4'')"
proof -
  let ?ds = "demo_dataset [''good.mp4''] False"
  have h1: "video_paths ?ds = [''good.mp4'']" and h2: "num_frames ?ds = 5"
    and h3: "\<not> load_audio_data ?ds"
    by (simp_all add: demo_dataset_def)
  have v: "VideoReader demo_world ''good.mp4'' 0 = Inr (plain_video 60)"
    by (simp add: demo_world_def)
  have h4: "\<forall>wid vr. VideoReader demo_world ''good.mp4'' wid = Inr vr \<longrightarrow>
      vr_len vr = 60 \<and> (\<forall>indices frames. vr_get_batch vr indices = Inr frames \<longrightarrow>
                          length frames = length indices)"
    by (auto simp: demo_world_def plain_video_def split: if_splits)
  have h5: "\<forall>ip frames affine a b c r. image_processors ?ds (worker_id ?ds) = Some ip \<longrightarrow>
      (prepare_masks_and_masked_images ip frames affine = Inr (a, b, c) \<longrightarrow>
         length a = length frames) \<and>
      (process_images ip frames = Inr r \<longrightarrow> length r = length frames)"
    by (auto simp: demo_dataset_def demo_processor_def)
  from one_video_records [OF h1 h2 h3 h4 h5 demo_run_53] h1 h2 h3 v demo_run_53
  show ?thesis by blast
qed


section \<open>Claims about the spectrogram cache\<close>

lemma replace_extension:
  assumes "\<forall>i < length stem. \<not> startswith (drop i (stem @ ''.mp4'')) ''.mp4''"
  shows "replace (stem @ ''.mp4'') ''.mp4'' ''_mel.pt'' = stem @ ''_mel.pt''"
  using assms
proof (induction stem)
  case Nil
  show ?case by (simp add: replace.simps startswith_def)
next
  case (Cons c cs)
  from Cons.prems have "\<not> startswith (drop 0 ((c # cs) @ ''.mp4'')) ''.mp4''" by blast
  then have first: "\<not> startswith (c # cs @ ''.mp4'') ''.mp4''" by simp
  have "\<forall>i < length cs. \<not> startswith (drop i (cs @ ''.mp4'')) ''.mp4''"
  proof (intro allI impI)
    fix i assume "i < length cs"
    then have "Suc i < length (c # cs)" by simp
    with Cons.prems have "\<not> startswith (drop (Suc i) ((c # cs) @ ''.mp4'')) ''.mp4''" by blast
    then show "\<not> startswith (drop i (cs @ ''.mp4'')) ''.mp4''" by simp
  qed
  from Cons.IH [OF this] first show ?case
    by (subst replace.simps) simp
qed

lemma basename_of_join:
  assumes "CHR ''/'' \<notin> set name"
  shows "os_path_basename (dir @ ''/'' @ name) = name"
proof -
  have "takeWhile (\<lambda>c. c \<noteq> CHR ''/'') (rev name @ CHR ''/'' # rev dir) = rev name"
    using assms by (subst takeWhile_append2) auto
  then show ?thesis by (simp add: os_path_basename_def)
qed

lemma load_mel_Some:
  assumes "load_audio_data self" and "load_mel W self path start st = Returns (Some w) st'"
  shows "\<exists>m. original_mel_of W self path st = Returns m st' \<and> crop_audio_window self m start = Inr w"
  using assms
  by (auto simp: load_mel_def split: outcome.splits sum.splits if_splits)

lemma original_mel_of_Returns:
  assumes "original_mel_of W self path st = Returns m st'"
  shows "(\<exists>content. fs st (mel_cache_path self path) = Some content \<and>
            torch_load W content = Inr m \<and> st' = st) \<or>
         (\<exists>written. read_audio W self path = Inr m \<and>
            torch_save W m (mel_cache_path self path) = Inr written \<and>
            fs st' (mel_cache_path self path) = Some written)"
  using assms
  by (auto simp: original_mel_of_def print_error_def Let_def
      split: option.splits sum.splits prod.splits)

text \<open>
  The cache, lines 134 to 144, with \<open>k\<close> the key of the video. A file at \<open>k\<close> that loads is
  the result and nothing changes. A file that fails to load is reported, deleted,
  recomputed from the audio and saved at \<open>k\<close>, when each of the four steps succeeds. With no
  file at \<open>k\<close> the spectrogram is computed and saved there, when both steps succeed. A step
  that raises ends the block with that exception: after a failed \<^verbatim>\<open>print\<close> nothing has
  changed, after a failed \<^verbatim>\<open>os.remove\<close> the unreadable file is still there, after a failed
  \<^verbatim>\<open>read_audio\<close> there is no file at \<open>k\<close>, after a failed \<^verbatim>\<open>torch.save\<close> there is what it left.
  The spectrogram cropped afterwards is the one loaded from the file at \<open>k\<close>, or the one
  computed, which is then what the file at \<open>k\<close> holds.
\<close>

lemma original_mel_of_protocol:
  fixes W :: "('f, 'g, 'a, 'c, 'b) world" and st :: "'b state"
    and self :: "('f, 'g) dataset" and path :: string and k :: string
  defines "k \<equiv> mel_cache_path self path"
  shows "(\<forall>content m. fs st k = Some content \<and> torch_load W content = Inr m \<longrightarrow>
            original_mel_of W self path st = Returns m st)"
    and "(\<forall>content e m written. fs st k = Some content \<and> torch_load W content = Inl e \<and>
            print W (error_line e k) = None \<and> os_remove W k = None \<and>
            read_audio W self path = Inr m \<and> torch_save W m k = Inr written \<longrightarrow>
            original_mel_of W self path st =
              Returns m (st\<lparr>fs := (fs st)(k \<mapsto> written),
                            stdout := stdout st @ [error_line e k]\<rparr>))"
    and "(\<forall>m written. fs st k = None \<and> read_audio W self path = Inr m \<and>
            torch_save W m k = Inr written \<longrightarrow>
            original_mel_of W self path st = Returns m (st\<lparr>fs := (fs st)(k \<mapsto> written)\<rparr>))"
    and "(\<forall>content e e'. fs st k = Some content \<and> torch_load W content = Inl e \<and>
            print W (error_line e k) = Some e' \<longrightarrow>
            original_mel_of W self path st = Raises e' st)"
    and "(\<forall>content e e'. fs st k = Some content \<and> torch_load W content = Inl e \<and>
            print W (error_line e k) = None \<and> os_remove W k = Some e' \<longrightarrow>
            original_mel_of W self path st =
              Raises e' (st\<lparr>stdout := stdout st @ [error_line e k]\<rparr>))"
    and "(\<forall>content e e'. fs st k = Some content \<and> torch_load W content = Inl e \<and>
            print W (error_line e k) = None \<and> os_remove W k = None \<and>
            read_audio W self path = Inl e' \<longrightarrow>
            original_mel_of W self path st =
              Raises e' (st\<lparr>fs := (fs st)(k := None),
                             stdout := stdout st @ [error_line e k]\<rparr>))"
    and "(\<forall>e. fs st k = None \<and> read_audio W self path = Inl e \<longrightarrow>
            original_mel_of W self path st = Raises e st)"
    and "(\<forall>m e left. fs st k = None \<and> read_audio W self path = Inr m \<and>
            torch_save W m k = Inl (e, left) \<longrightarrow>
            original_mel_of W self path st = Raises e (st\<lparr>fs := (fs st)(k := left)\<rparr>))"
    and "(\<forall>start w st'. load_audio_data self \<and>
            load_mel W self path start st = Returns (Some w) st' \<longrightarrow>
            (\<exists>m. original_mel_of W self path st = Returns m st' \<and>
               crop_audio_window self m start = Inr w \<and>
               ((\<exists>content. fs st k = Some content \<and> torch_load W content = Inr m \<and> st' = st) \<or>
                (\<exists>written. read_audio W self path = Inr m \<and> torch_save W m k = Inr written \<and>
                   fs st' k = Some written))))"
proof -
  show "\<forall>content m. fs st k = Some content \<and> torch_load W content = Inr m \<longrightarrow>
      original_mel_of W self path st = Returns m st"
    by (simp add: original_mel_of_def k_def)
  show "\<forall>content e m written. fs st k = Some content \<and> torch_load W content = Inl e \<and>
      print W (error_line e k) = None \<and> os_remove W k = None \<and>
      read_audio W self path = Inr m \<and> torch_save W m k = Inr written \<longrightarrow>
      original_mel_of W self path st =
        Returns m (st\<lparr>fs := (fs st)(k \<mapsto> written), stdout := stdout st @ [error_line e k]\<rparr>)"
    by (simp add: original_mel_of_def print_error_def k_def Let_def)
  show "\<forall>m written. fs st k = None \<and> read_audio W self path = Inr m \<and>
      torch_save W m k = Inr written \<longrightarrow>
      original_mel_of W self path st = Returns m (st\<lparr>fs := (fs st)(k \<mapsto> written)\<rparr>)"
    by (simp add: original_mel_of_def k_def)
  show "\<forall>content e e'. fs st k = Some content \<and> torch_load W content = Inl e \<and>
      print W (error_line e k) = Some e' \<longrightarrow>
      original_mel_of W self path st = Raises e' st"
    by (simp add: original_mel_of_def print_error_def k_def)
  show "\<forall>content e e'. fs st k = Some content \<and> torch_load W content = Inl e \<and>
      print W (error_line e k) = None \<and> os_remove W k = Some e' \<longrightarrow>
      original_mel_of W self path st = Raises e' (st\<lparr>stdout := stdout st @ [error_line e k]\<rparr>)"
    by (simp add: original_mel_of_def print_error_def k_def)
  show "\<forall>content e e'. fs st k = Some content \<and> torch_load W content = Inl e \<and>
      print W (error_line e k) = None \<and> os_remove W k = None \<and>
      read_audio W self path = Inl e' \<longrightarrow>
      original_mel_of W self path st =
        Raises e' (st\<lparr>fs := (fs st)(k := None), stdout := stdout st @ [error_line e k]\<rparr>)"
    by (simp add: original_mel_of_def print_error_def k_def Let_def)
  show "\<forall>e. fs st k = None \<and> read_audio W self path = Inl e \<longrightarrow>
      original_mel_of W self path st = Raises e st"
    by (simp add: original_mel_of_def k_def)
  show "\<forall>m e left. fs st k = None \<and> read_audio W self path = Inr m \<and>
      torch_save W m k = Inl (e, left) \<longrightarrow>
      original_mel_of W self path st = Raises e (st\<lparr>fs := (fs st)(k := left)\<rparr>)"
    by (simp add: original_mel_of_def k_def)
  show "\<forall>start w st'. load_audio_data self \<and>
      load_mel W self path start st = Returns (Some w) st' \<longrightarrow>
      (\<exists>m. original_mel_of W self path st = Returns m st' \<and>
         crop_audio_window self m start = Inr w \<and>
         ((\<exists>content. fs st k = Some content \<and> torch_load W content = Inr m \<and> st' = st) \<or>
          (\<exists>written. read_audio W self path = Inr m \<and> torch_save W m k = Inr written \<and>
             fs st' k = Some written)))"
  proof (intro allI impI)
    fix start w st'
    assume h: "load_audio_data self \<and> load_mel W self path start st = Returns (Some w) st'"
    then obtain m where m: "original_mel_of W self path st = Returns m st'"
      and c: "crop_audio_window self m start = Inr w"
      using load_mel_Some by blast
    from original_mel_of_Returns [OF m] m c
    show "\<exists>m. original_mel_of W self path st = Returns m st' \<and>
        crop_audio_window self m start = Inr w \<and>
        ((\<exists>content. fs st k = Some content \<and> torch_load W content = Inr m \<and> st' = st) \<or>
         (\<exists>written. read_audio W self path = Inr m \<and> torch_save W m k = Inr written \<and>
            fs st' k = Some written))"
      unfolding k_def by blast
  qed
qed

text \<open>
  Runs of the cache in the demonstration world, on the key \<open>cache/good_mel.pt\<close>: a file that
  loads, a file that does not, and no file.
\<close>

lemma demo_cache_runs:
  "mel_cache_path (demo_dataset [''clips/good.mp4''] True) ''clips/good.mp4'' = ''cache/good_mel.pt''"
  "original_mel_of demo_world (demo_dataset [''clips/good.mp4''] True) ''clips/good.mp4''
     \<lparr>rng = [], fs = [''cache/good_mel.pt'' \<mapsto> [0, 4, 5]], stdout = []\<rparr> =
   Returns [4, 5] \<lparr>rng = [], fs = [''cache/good_mel.pt'' \<mapsto> [0, 4, 5]], stdout = []\<rparr>"
  "original_mel_of demo_world (demo_dataset [''clips/good.mp4''] True) ''clips/good.mp4''
     \<lparr>rng = [], fs = [''cache/good_mel.pt'' \<mapsto> [7, 4, 5]], stdout = []\<rparr> =
   Returns [0..<30]
     \<lparr>rng = [], fs = [''cache/good_mel.pt'' \<mapsto> 0 # [0..<30]],
      stdout = [''UnpicklingError - invalid load key - cache/good_mel.pt'']\<rparr>"
  "original_mel_of demo_world (demo_dataset [''clips/good.mp4''] True) ''clips/good.mp4''
     \<lparr>rng = [], fs = Map.empty, stdout = []\<rparr> =
   Returns [0..<30] \<lparr>rng = [], fs = [''cache/good_mel.pt'' \<mapsto> 0 # [0..<30]], stdout = []\<rparr>"
proof -
  show key: "mel_cache_path (demo_dataset [''clips/good.mp4''] True) ''clips/good.mp4'' =
      ''cache/good_mel.pt''"
    by (simp add: mel_cache_path_def os_path_join_def os_path_basename_def replace.simps
        startswith_def endswith_def demo_dataset_def)
  have audio: "read_audio demo_world (demo_dataset [''clips/good.mp4''] True) ''clips/good.mp4'' =
      Inr [0..<30]"
    by (simp add: read_audio_def demo_world_def)
  have w: "torch_load demo_world [0, 4, 5] = Inr [4, 5]"
    "torch_load demo_world [7, 4, 5] = Inl (Exn ''UnpicklingError'' ''invalid load key'')"
    "torch_save demo_world m p = Inr (0 # m)"
    "os_remove demo_world p = None"
    "print demo_world ''UnpicklingError - invalid load key - cache/good_mel.pt'' = None"
    for m p
    by (simp_all add: demo_world_def)
  show "original_mel_of demo_world (demo_dataset [''clips/good.mp4''] True) ''clips/good.mp4''
     \<lparr>rng = [], fs = [''cache/good_mel.pt'' \<mapsto> [0, 4, 5]], stdout = []\<rparr> =
   Returns [4, 5] \<lparr>rng = [], fs = [''cache/good_mel.pt'' \<mapsto> [0, 4, 5]], stdout = []\<rparr>"
    by (simp add: original_mel_of_def key w)
  show "original_mel_of demo_world (demo_dataset [''clips/good.mp4''] True) ''clips/good.mp4''
     \<lparr>rng = [], fs = [''cache/good_mel.pt'' \<mapsto> [7, 4, 5]], stdout = []\<rparr> =
   Returns [0..<30]
     \<lparr>rng = [], fs = [''cache/good_mel.pt'' \<mapsto> 0 # [0..<30]],
      stdout = [''UnpicklingError - invalid load key - cache/good_mel.pt'']\<rparr>"
    by (simp add: original_mel_of_def print_error_def error_line_def key w audio Let_def)
  show "original_mel_of demo_world (demo_dataset [''clips/good.mp4''] True) ''clips/good.mp4''
     \<lparr>rng = [], fs = Map.empty, stdout = []\<rparr> =
   Returns [0..<30] \<lparr>rng = [], fs = [''cache/good_mel.pt'' \<mapsto> 0 # [0..<30]], stdout = []\<rparr>"
    by (simp add: original_mel_of_def key w audio)
qed

text \<open>
  Where the key of the code is the one of the specification: a base name \<open>stem.mp4\<close> in
  which \<open>.mp4\<close> occurs at the end only.
\<close>

lemma mel_cache_path_single_extension:
  assumes "CHR ''/'' \<notin> set stem"
    and "\<forall>i < length stem. \<not> startswith (drop i (stem @ ''.mp4'')) ''.mp4''"
  shows "mel_cache_path self (dir @ ''/'' @ stem @ ''.mp4'') =
           os_path_join (audio_mel_cache_dir self) (stem @ ''_mel.pt'')"
    and "spec_cache_key (audio_mel_cache_dir self) (dir @ ''/'' @ stem @ ''.mp4'') =
           os_path_join (audio_mel_cache_dir self) (stem @ ''_mel.pt'')"
proof -
  from assms(1) have "CHR ''/'' \<notin> set (stem @ ''.mp4'')" by simp
  from basename_of_join [OF this, of dir]
  have b: "os_path_basename (dir @ ''/'' @ stem @ ''.mp4'') = stem @ ''.mp4''" .
  from b replace_extension [OF assms(2)]
  show "mel_cache_path self (dir @ ''/'' @ stem @ ''.mp4'') =
      os_path_join (audio_mel_cache_dir self) (stem @ ''_mel.pt'')"
    by (simp add: mel_cache_path_def)
  have "dropWhile (\<lambda>c. c \<noteq> CHR ''.'') (rev (stem @ ''.mp4'')) = CHR ''.'' # rev stem"
    by simp
  then have "spec_replace_extension (stem @ ''.mp4'') ''_mel.pt'' = stem @ ''_mel.pt''"
    by (simp add: spec_replace_extension_def)
  with b show "spec_cache_key (audio_mel_cache_dir self) (dir @ ''/'' @ stem @ ''.mp4'') =
      os_path_join (audio_mel_cache_dir self) (stem @ ''_mel.pt'')"
    by (simp add: spec_cache_key_def)
qed

text \<open>
  C9. The key is not the base name with its extension replaced: \<^verbatim>\<open>str.replace\<close> rewrites
  every occurrence of \<open>.mp4\<close> in the base name. The entry \<open>x.mp4.mp4\<close> of the directory
  \<open>clips\<close> ends in \<open>.mp4\<close>, so the directory scan of line 34, which reads \<open>.mp4\<close> as a suffix,
  puts it in the index; its key is \<open>cache/x_mel.pt_mel.pt\<close>, where replacing the extension
  gives \<open>cache/x.mp4_mel.pt\<close>.
\<close>

theorem mel_cache_path_every_occurrence:
  "resolve_paths demo_world ''clips'' (demo_config 5 [] True) =
     Inr [''clips/good.mp4'', ''clips/x.mp4.mp4''] \<and>
   mel_cache_path (demo_dataset [''clips/good.mp4'', ''clips/x.mp4.mp4''] True) ''clips/x.mp4.mp4'' =
     ''cache/x_mel.pt_mel.pt'' \<and>
   spec_cache_key ''cache'' ''clips/x.mp4.mp4'' = ''cache/x.mp4_mel.pt'' \<and>
   mel_cache_path (demo_dataset [''clips/good.mp4'', ''clips/x.mp4.mp4''] True) ''clips/x.mp4.mp4'' \<noteq>
     spec_cache_key
       (audio_mel_cache_dir (demo_dataset [''clips/good.mp4'', ''clips/x.mp4.mp4''] True))
       ''clips/x.mp4.mp4''"
proof -
  have a: "resolve_paths demo_world ''clips'' (demo_config 5 [] True) =
      Inr [''clips/good.mp4'', ''clips/x.mp4.mp4'']"
    by (simp add: resolve_paths_def demo_world_def demo_config_def endswith_def startswith_def
        os_path_join_def)
  have b: "mel_cache_path (demo_dataset [''clips/good.mp4'', ''clips/x.mp4.mp4''] True)
      ''clips/x.mp4.mp4'' = ''cache/x_mel.pt_mel.pt''"
    by (simp add: mel_cache_path_def os_path_join_def os_path_basename_def replace.simps
        startswith_def endswith_def demo_dataset_def)
  have c: "spec_cache_key ''cache'' ''clips/x.mp4.mp4'' = ''cache/x.mp4_mel.pt''"
    by (simp add: spec_cache_key_def spec_replace_extension_def os_path_join_def
        os_path_basename_def startswith_def endswith_def)
  have d: "audio_mel_cache_dir (demo_dataset [''clips/good.mp4'', ''clips/x.mp4.mp4''] True) = ''cache''"
    by (simp add: demo_dataset_def)
  from a b c d show ?thesis by simp
qed


section \<open>Facts about binary64 arithmetic\<close>

text \<open>
  Powers of two, the exponent of a positive rational, rounding to the nearest integer with
  ties to even, and from them: the double nearest to a rational of the normal range, its
  relative error of at most \<open>2 ^ -53\<close>, and the doubles that are integers.
\<close>

lemma pow2_powi: "pow2 e = 2 powi e"
  by (simp add: pow2_def power_int_def inverse_eq_divide power_one_over)

lemma pow2_pos [simp]: "0 < pow2 e"
  by (simp add: pow2_powi)

lemma pow2_add: "pow2 (a + b) = pow2 a * pow2 b"
  by (simp add: pow2_powi power_int_add)

lemma pow2_diff: "pow2 (a - b) = pow2 a / pow2 b"
  by (simp add: pow2_powi power_int_diff)

lemma pow2_strict_mono: "a < b \<Longrightarrow> pow2 a < pow2 b"
  by (simp add: pow2_powi power_int_strict_increasing)

lemma pow2_less_iff [simp]: "pow2 a < pow2 b \<longleftrightarrow> a < b"
proof
  assume h: "pow2 a < pow2 b"
  show "a < b"
  proof (rule ccontr)
    assume "\<not> a < b"
    then have "b = a \<or> b < a" by linarith
    then have "pow2 b \<le> pow2 a" using pow2_strict_mono [of b a] by auto
    with h show False by simp
  qed
qed (rule pow2_strict_mono)

lemma pow2_le_iff [simp]: "pow2 a \<le> pow2 b \<longleftrightarrow> a \<le> b"
  using pow2_less_iff [of b a] by (simp only: not_less [symmetric])

lemma pow2_nat: "0 \<le> e \<Longrightarrow> pow2 e = of_int (2 ^ nat e)"
  by (simp add: pow2_def)

lemma pow2_0 [simp]: "pow2 0 = 1"
  by (simp add: pow2_def)

lemma bits_bounds: "0 < n \<Longrightarrow> 2 ^ (bits n - 1) \<le> n \<and> n < 2 ^ bits n"
proof (induction n rule: bits.induct)
  case (1 n)
  show ?case
  proof (cases "n div 2 = 0")
    case True
    with "1.prems" have "n = 1" by linarith
    then show ?thesis by (simp add: bits.simps)
  next
    case False
    then have pos: "0 < n div 2" by simp
    from "1.IH" [OF _ pos] "1.prems"
    have ih: "2 ^ (bits (n div 2) - 1) \<le> n div 2" "n div 2 < 2 ^ bits (n div 2)" by simp_all
    have b: "bits n = Suc (bits (n div 2))" using "1.prems" by (subst bits.simps) simp
    have bp: "0 < bits (n div 2)" using pos by (subst bits.simps) simp
    then have e: "2 ^ (bits n - 1) = 2 * (2::nat) ^ (bits (n div 2) - 1)"
      by (cases "bits (n div 2)") (simp_all add: b)
    have "2 * (2::nat) ^ (bits (n div 2) - 1) \<le> 2 * (n div 2)" using ih(1) by simp
    also have "\<dots> \<le> n" by simp
    finally have lo: "2 ^ (bits n - 1) \<le> n" by (simp only: e)
    have "n < 2 * (n div 2) + 2" by linarith
    also have "\<dots> \<le> 2 * 2 ^ bits (n div 2)" using ih(2) by simp
    finally have hi: "n < 2 ^ bits n" by (simp add: b)
    from lo hi show ?thesis ..
  qed
qed

lemma bits_pos: "0 < n \<Longrightarrow> 0 < bits n"
  by (subst bits.simps) simp

lemma pow2_neg: "0 \<le> j \<Longrightarrow> pow2 (- j) = 1 / of_int (2 ^ nat j)"
  by (cases "j = 0") (simp_all add: pow2_def)

lemma inv_le_swap: "0 < x \<Longrightarrow> 0 < (p::rat) \<Longrightarrow> 1 / x \<le> p \<Longrightarrow> 1 / p \<le> x"
  by (simp add: pos_divide_le_eq mult.commute)

lemma inv_less_swap: "0 < x \<Longrightarrow> 0 < (p::rat) \<Longrightarrow> p < 1 / x \<Longrightarrow> x < 1 / p"
  by (simp add: pos_less_divide_eq mult.commute)

lemma ilog2_bounds:
  assumes "0 < x"
  shows "pow2 (ilog2 x) \<le> x \<and> x < pow2 (ilog2 x + 1)"
proof (cases "1 \<le> x")
  case True
  define n where "n = nat \<lfloor>x\<rfloor>"
  have fl1: "1 \<le> \<lfloor>x\<rfloor>" using True by (simp add: le_floor_iff)
  then have n: "0 < n" and nx: "int n = \<lfloor>x\<rfloor>" by (simp_all add: n_def)
  from bits_bounds [OF n] have lo: "2 ^ (bits n - 1) \<le> n" and hi: "n < 2 ^ bits n" by simp_all
  have bp: "0 < bits n" using n by (rule bits_pos)
  have e: "ilog2 x = int (bits n) - 1" using True by (simp add: ilog2_def n_def)
  have e0: "0 \<le> int (bits n) - 1" using bp by simp
  have n1: "nat (int (bits n) - 1) = bits n - 1" using bp by simp
  have "pow2 (int (bits n) - 1) = of_int (2 ^ (bits n - 1))"
    using pow2_nat [OF e0] by (simp only: n1)
  also have "\<dots> \<le> of_int (int n)" using lo
    by (metis of_int_le_iff of_nat_le_iff of_nat_numeral of_nat_power)
  also have "\<dots> \<le> x" by (simp only: nx of_int_floor_le)
  finally have A: "pow2 (ilog2 x) \<le> x" by (simp only: e)
  have "int n < 2 ^ bits n" using hi
    by (metis of_nat_less_iff of_nat_numeral of_nat_power)
  then have "int n + 1 \<le> 2 ^ bits n" by linarith
  then have "(of_int (int n + 1) :: rat) \<le> of_int (2 ^ bits n)" by (simp only: of_int_le_iff)
  moreover have "x < of_int (int n + 1)" using floor_correct [of x] by (simp add: nx)
  ultimately have "x < of_int (2 ^ bits n)" by linarith
  moreover have "pow2 (ilog2 x + 1) = of_int (2 ^ bits n)"
    using pow2_nat [of "int (bits n)"] by (simp add: e)
  ultimately have B: "x < pow2 (ilog2 x + 1)" by simp
  from A B show ?thesis ..
next
  case False
  then have x1: "x < 1" by simp
  define m where "m = \<lceil>1 / x\<rceil>"
  define n where "n = nat (m - 1)"
  have inv: "1 < 1 / x" using assms x1 by (simp add: pos_less_divide_eq)
  then have "1 < m" unfolding m_def by (simp add: less_ceiling_iff)
  then have m2: "2 \<le> m" by linarith
  then have n: "0 < n" and nm: "int n = m - 1" by (simp_all add: n_def)
  from bits_bounds [OF n] have lo: "2 ^ (bits n - 1) \<le> n" and hi: "n < 2 ^ bits n" by simp_all
  have bp: "0 < bits n" using n by (rule bits_pos)
  have e: "ilog2 x = - int (bits n)" using False by (simp add: ilog2_def n_def m_def)
  have up: "1 / x \<le> of_int m" by (simp add: m_def)
  have dn: "of_int (m - 1) < 1 / x" unfolding m_def using ceiling_correct [of "1 / x"] by simp
  have "int n < 2 ^ bits n" using hi
    by (metis of_nat_less_iff of_nat_numeral of_nat_power)
  then have "m \<le> 2 ^ bits n" using nm by linarith
  then have "(of_int m :: rat) \<le> of_int (2 ^ bits n)" by (simp only: of_int_le_iff)
  with up have le1: "1 / x \<le> of_int (2 ^ bits n)" by (rule order_trans)
  have "1 / of_int (2 ^ bits n) \<le> x"
    by (rule inv_le_swap [OF assms _ le1]) simp
  moreover have "pow2 (- int (bits n)) = 1 / of_int (2 ^ bits n)"
  proof -
    have "pow2 (- int (bits n)) = 1 / of_int (2 ^ nat (int (bits n)))"
      by (rule pow2_neg) simp
    then show ?thesis by (simp only: nat_int)
  qed
  ultimately have A: "pow2 (ilog2 x) \<le> x" by (simp only: e)
  have "(2::int) ^ (bits n - 1) \<le> int n" using lo
    by (metis of_nat_le_iff of_nat_numeral of_nat_power)
  then have "(2::int) ^ (bits n - 1) \<le> m - 1" using nm by simp
  then have "(of_int (2 ^ (bits n - 1)) :: rat) \<le> of_int (m - 1)" by (simp only: of_int_le_iff)
  then have lt1: "of_int (2 ^ (bits n - 1)) < 1 / x" using dn by (rule le_less_trans)
  have "x < 1 / of_int (2 ^ (bits n - 1))"
    by (rule inv_less_swap [OF assms _ lt1]) simp
  moreover have "pow2 (- int (bits n) + 1) = 1 / of_int (2 ^ (bits n - 1))"
  proof -
    have eq: "- int (bits n) + 1 = - int (bits n - 1)" using bp by simp
    have "pow2 (- int (bits n - 1)) = 1 / of_int (2 ^ nat (int (bits n - 1)))"
      by (rule pow2_neg) simp
    then show ?thesis by (simp only: eq nat_int)
  qed
  ultimately have B: "x < pow2 (ilog2 x + 1)" by (simp only: e)
  from A B show ?thesis ..
qed

lemma ilog2_unique:
  assumes "pow2 e \<le> x" and "x < pow2 (e + 1)"
  shows "ilog2 x = e"
proof -
  have x: "0 < x" using assms(1) pow2_pos [of e] by linarith
  from ilog2_bounds [OF x] have a: "pow2 (ilog2 x) \<le> x" and b: "x < pow2 (ilog2 x + 1)" by simp_all
  from a assms(2) have "pow2 (ilog2 x) < pow2 (e + 1)" by linarith
  then have 1: "ilog2 x < e + 1" by simp
  from assms(1) b have "pow2 e < pow2 (ilog2 x + 1)" by linarith
  then have 2: "e < ilog2 x + 1" by simp
  from 1 2 show ?thesis by linarith
qed

lemma pow2_nonneg [simp]: "0 \<le> pow2 e"
  using pow2_pos [of e] by (rule less_imp_le)

lemma pow2_nonzero [simp]: "pow2 e \<noteq> 0"
  by (metis less_irrefl pow2_pos)

lemma rhe_cases:
  "round_half_even r = \<lfloor>r\<rfloor> \<or> round_half_even r = \<lfloor>r\<rfloor> + 1"
  by (simp add: round_half_even_def Let_def)

lemma rhe_error: "\<bar>of_int (round_half_even r) - r\<bar> \<le> 1 / 2"
proof -
  have f: "of_int \<lfloor>r\<rfloor> \<le> r" "r < of_int \<lfloor>r\<rfloor> + 1" using floor_correct [of r] by simp_all
  show ?thesis
    using f by (auto simp: round_half_even_def Let_def abs_le_iff)
qed

lemma rhe_near:
  assumes "\<bar>r - of_int n\<bar> < 1 / 2"
  shows "round_half_even r = n"
proof -
  have "\<bar>of_int (round_half_even r) - (of_int n :: rat)\<bar> \<le>
      \<bar>of_int (round_half_even r) - r\<bar> + \<bar>r - of_int n\<bar>"
    by linarith
  also have "\<dots> < 1 / 2 + 1 / 2" using rhe_error [of r] assms by linarith
  finally have "\<bar>(of_int (round_half_even r - n) :: rat)\<bar> < 1" by simp
  then have "\<bar>round_half_even r - n\<bar> < 1"
    by (metis of_int_abs of_int_less_iff of_int_1)
  then show ?thesis by linarith
qed

lemma rhe_int [simp]: "round_half_even (of_int n) = n"
  by (rule rhe_near) simp

lemma rhe_tie_below:
  assumes "even n"
  shows "round_half_even (of_int n - 1 / 2) = n"
proof -
  have f: "\<lfloor>(of_int n :: rat) - 1 / 2\<rfloor> = n - 1" by (simp add: floor_unique)
  have "odd (n - 1)" using assms by simp
  then show ?thesis by (simp add: round_half_even_def Let_def f)
qed

lemma rhe_tie_above:
  assumes "even n"
  shows "round_half_even (of_int n + 1 / 2) = n"
proof -
  have f: "\<lfloor>(of_int n :: rat) + 1 / 2\<rfloor> = n" by (simp add: floor_unique)
  show ?thesis using assms by (simp add: round_half_even_def Let_def f)
qed

lemma rhe_mono_bound:
  assumes "of_int a \<le> r" and "r \<le> of_int b"
  shows "a \<le> round_half_even r \<and> round_half_even r \<le> b"
proof -
  have fl: "a \<le> \<lfloor>r\<rfloor>" using assms(1) by (simp add: le_floor_iff)
  have f: "of_int \<lfloor>r\<rfloor> \<le> r" "r < of_int \<lfloor>r\<rfloor> + 1" using floor_correct [of r] by simp_all
  have lo: "a \<le> round_half_even r" using rhe_cases [of r] fl by linarith
  have hi: "round_half_even r \<le> b"
  proof (cases "r = of_int b")
    case True
    then show ?thesis by simp
  next
    case False
    with assms(2) have "r < of_int b" by simp
    then have "\<lfloor>r\<rfloor> < b" by (simp add: floor_less_iff)
    with rhe_cases [of r] show ?thesis by linarith
  qed
  from lo hi show ?thesis ..
qed

text \<open>The value of fl on a positive number of known exponent, in the normal range.\<close>

lemma fl_normal:
  assumes "pow2 e \<le> x" and "x < pow2 (e + 1)" and "- 1022 \<le> e" and "e \<le> 1022"
  shows "fl x = Some (of_int (round_half_even (x / pow2 (e - 52))) * pow2 (e - 52))"
proof -
  have x: "0 < x" using assms(1) pow2_pos [of e] by linarith
  have e: "ilog2 x = e" using assms(1,2) by (rule ilog2_unique)
  let ?q = "pow2 (e - 52)"
  have q: "0 < ?q" by simp
  have "x / ?q < pow2 (e + 1) / ?q" using assms(2) q by (simp add: divide_strict_right_mono)
  also have "pow2 (e + 1) / ?q = pow2 53" by (simp flip: pow2_diff)
  finally have "x / ?q \<le> of_int (2 ^ 53)" by (simp add: pow2_def)
  moreover have "of_int 0 \<le> x / ?q" using x q by simp
  ultimately have m: "round_half_even (x / ?q) \<le> 2 ^ 53" using rhe_mono_bound by blast
  have "of_int (round_half_even (x / ?q)) * ?q \<le> of_int (2 ^ 53) * ?q"
    using m q by (intro mult_right_mono) (simp_all only: of_int_le_iff pow2_pos less_imp_le)
  also have "of_int (2 ^ 53) * ?q = pow2 53 * ?q" by (simp add: pow2_def)
  also have "\<dots> = pow2 (53 + (e - 52))" by (simp only: pow2_add)
  also have "\<dots> = pow2 (e + 1)" by (simp add: algebra_simps)
  also have "\<dots> < pow2 1024" using assms(4) by simp
  finally have small: "\<not> pow2 1024 \<le> of_int (round_half_even (x / ?q)) * ?q" by simp
  have mx: "max e (- 1022) = e" using assms(3) by simp
  show ?thesis
    using x small by (simp add: fl_def e mx Let_def)
qed

lemma fl_rel_error:
  assumes "pow2 e \<le> x" and "x < pow2 (e + 1)" and "- 1022 \<le> e" and "e \<le> 1022"
  shows "\<exists>y. fl x = Some y \<and> \<bar>y - x\<bar> \<le> x / 2 ^ 53"
proof -
  let ?q = "pow2 (e - 52)"
  let ?y = "of_int (round_half_even (x / ?q)) * ?q"
  have q: "0 < ?q" by simp
  have "?y - x = (of_int (round_half_even (x / ?q)) - x / ?q) * ?q"
    by (simp add: left_diff_distrib)
  then have "\<bar>?y - x\<bar> = \<bar>of_int (round_half_even (x / ?q)) - x / ?q\<bar> * \<bar>?q\<bar>"
    by (simp only: abs_mult)
  also have "\<bar>?q\<bar> = ?q" by simp
  finally have "\<bar>?y - x\<bar> = \<bar>of_int (round_half_even (x / ?q)) - x / ?q\<bar> * ?q" .
  also have "\<dots> \<le> 1 / 2 * ?q" using rhe_error [of "x / ?q"] q by (intro mult_right_mono) simp_all
  also have "\<dots> = pow2 e / 2 ^ 53"
  proof -
    have "?q = pow2 e / pow2 52" by (rule pow2_diff)
    then show ?thesis by (simp add: pow2_def)
  qed
  also have "\<dots> \<le> x / 2 ^ 53" using assms(1) by (simp add: divide_right_mono)
  finally have "\<bar>?y - x\<bar> \<le> x / 2 ^ 53" .
  with fl_normal [OF assms] show ?thesis by blast
qed

lemma pow2_minus: "pow2 (- a) = 1 / pow2 a"
  using pow2_diff [of 0 a] by simp

lemma pow2_shift: "pow2 (a + b) = pow2 b * pow2 a"
  by (simp add: pow2_add)

lemma pow2_numeral: "pow2 (numeral w) = 2 ^ numeral w"
  by (simp add: pow2_def)

lemma fl_zero [simp]: "fl 0 = Some 0"
  by (simp add: fl_def)

lemma fl_exact:
  assumes "pow2 e \<le> x" and "x < pow2 (e + 1)" and "- 1022 \<le> e" and "e \<le> 1022"
    and "x / pow2 (e - 52) = of_int m"
  shows "fl x = Some x"
proof -
  have "of_int m * pow2 (e - 52) = x" using assms(5) by (simp add: field_simps)
  with fl_normal [OF assms(1-4)] assms(5) show ?thesis by simp
qed

lemma fl_of_int:
  assumes "0 \<le> n" and "n \<le> 2 ^ 53"
  shows "fl (of_int n) = Some (of_int n)"
proof (cases "n = 0")
  case True
  then show ?thesis by simp
next
  case False
  with assms(1) have n1: "1 \<le> n" by simp
  define e where "e = ilog2 (of_int n)"
  have pos: "0 < (of_int n :: rat)" using n1 by simp
  from ilog2_bounds [OF pos] have lo: "pow2 e \<le> of_int n" and hi: "of_int n < pow2 (e + 1)"
    by (simp_all add: e_def)
  have "pow2 0 \<le> (of_int n :: rat)" using n1 by simp
  then have "pow2 0 < pow2 (e + 1)" using hi by (rule le_less_trans)
  then have "(0::int) < e + 1" by (simp only: pow2_less_iff)
  then have e0: "0 \<le> e" by simp
  have "(of_int n :: rat) \<le> of_int (2 ^ 53)" using assms(2) by (simp only: of_int_le_iff)
  also have "(of_int (2 ^ 53) :: rat) = pow2 53" by (simp add: pow2_numeral)
  finally have "(of_int n :: rat) \<le> pow2 53" .
  with lo have "pow2 e \<le> pow2 53" by (rule order_trans)
  then have e53: "e \<le> 53" by (simp only: pow2_le_iff)
  show ?thesis
  proof (cases "e \<le> 52")
    case True
    have "pow2 (e - 52) = 1 / pow2 (52 - e)" using pow2_minus [of "52 - e"] by simp
    then have "of_int n / pow2 (e - 52) = of_int n * pow2 (52 - e)" by simp
    also have "pow2 (52 - e) = of_int (2 ^ nat (52 - e))" using True by (intro pow2_nat) simp
    finally have "of_int n / pow2 (e - 52) = of_int (n * 2 ^ nat (52 - e))" by simp
    from fl_exact [OF lo hi _ _ this] e0 e53 show ?thesis by simp
  next
    case False
    with e53 have e: "e = 53" by simp
    from lo e have "(2 ^ 53 :: rat) \<le> of_int n" by (simp add: pow2_numeral)
    then have "(of_int (2 ^ 53) :: rat) \<le> of_int n" by simp
    then have "2 ^ 53 \<le> n" by (simp only: of_int_le_iff)
    with assms(2) have n: "n = 2 ^ 53" by simp
    have "(of_int n :: rat) / pow2 (e - 52) = of_int (2 ^ 52)" by (simp add: e n pow2_def)
    from fl_exact [OF lo hi _ _ this] e show ?thesis by simp
  qed
qed

lemma rhe_quarter:
  assumes "even K" and "- 2 \<le> d" and "d \<le> 2"
  shows "round_half_even (of_int K + of_int d / 4) = K"
proof -
  from assms(2,3) consider "d = - 2" | "d = - 1" | "d = 0" | "d = 1" | "d = 2" by linarith
  then show ?thesis
  proof cases
    case 1
    then have "(of_int K :: rat) + of_int d / 4 = of_int K - 1 / 2" by simp
    then show ?thesis using rhe_tie_below [OF assms(1)] by simp
  next
    case 2
    then show ?thesis by (intro rhe_near) simp
  next
    case 3
    then show ?thesis by simp
  next
    case 4
    then show ?thesis by (intro rhe_near) simp
  next
    case 5
    then have "(of_int K :: rat) + of_int d / 4 = of_int K + 1 / 2" by simp
    then show ?thesis using rhe_tie_above [OF assms(1)] by simp
  qed
qed

lemma rhe_eighth:
  assumes "- 2 \<le> d" and "d \<le> 2"
  shows "round_half_even (of_int K + of_int d / 8) = K"
proof (rule rhe_near)
  have "\<bar>(of_int d :: rat)\<bar> \<le> 2" using assms by (simp add: abs_le_iff)
  then show "\<bar>of_int K + of_int d / 8 - (of_int K :: rat)\<bar> < 1 / 2" by simp
qed

lemma fl_times80:
  assumes k1: "1 \<le> k" and k2: "k \<le> 2 ^ 51"
  shows "\<exists>x. fl (of_int k / 80) = Some x \<and> fl (80 * x) = Some (of_int k)"
proof -
  define a :: rat where "a = of_int k / 80"
  have a0: "0 < a" using k1 by (simp add: a_def)
  define e where "e = ilog2 a"
  from ilog2_bounds [OF a0] have lo: "pow2 e \<le> a" and hi: "a < pow2 (e + 1)"
    by (simp_all add: e_def)
  have "(1 :: rat) \<le> of_int k" using k1 by simp
  then have "pow2 (- 7) < a" by (simp add: a_def pow2_def)
  then have "pow2 (- 7) < pow2 (e + 1)" using hi by (rule less_trans)
  then have "- 7 < e + 1" by (simp only: pow2_less_iff)
  then have e_lo: "- 7 \<le> e" by simp
  have "(of_int k :: rat) \<le> of_int (2 ^ 51)" using k2 by (simp only: of_int_le_iff)
  then have "a < pow2 45" by (simp add: a_def pow2_numeral)
  with lo have "pow2 e < pow2 45" by (rule le_less_trans)
  then have "e < 45" by (simp only: pow2_less_iff)
  then have e_hi: "e \<le> 44" by simp
  define Q where "Q = pow2 (e - 52)"
  have Q0: "0 < Q" by (simp add: Q_def)
  define n :: int where "n = k * 2 ^ nat (48 - e)"
  have p48: "pow2 (48 - e) = of_int (2 ^ nat (48 - e))" using e_hi by (intro pow2_nat) simp
  have Qinv: "1 / Q = 16 * pow2 (48 - e)"
  proof -
    have "1 / Q = pow2 (- (e - 52))" by (simp only: Q_def pow2_minus [symmetric])
    also have "- (e - 52) = 4 + (48 - e)" by simp
    also have "pow2 (4 + (48 - e)) = pow2 4 * pow2 (48 - e)" by (rule pow2_add)
    finally show ?thesis by (simp add: pow2_numeral)
  qed
  have aQ: "a / Q = of_int n / 5"
  proof -
    have "a / Q = a * (1 / Q)" by simp
    also have "\<dots> = of_int k / 80 * (16 * of_int (2 ^ nat (48 - e)))"
      by (simp only: Qinv p48 a_def)
    also have "\<dots> = of_int n / 5" by (simp add: n_def)
    finally show ?thesis .
  qed
  have nQ: "16 * of_int n * Q = of_int k"
  proof -
    have "of_int n = 5 * (a / Q)" by (simp add: aQ)
    then have "16 * of_int n * Q = 80 * a" using Q0 by simp
    then show ?thesis by (simp add: a_def)
  qed
  define M where "M = round_half_even (a / Q)"
  define x where "x = of_int M * Q"
  have flx: "fl a = Some x"
    using fl_normal [OF lo hi] e_lo e_hi by (simp add: x_def M_def Q_def)
  define d where "d = 5 * M - n"
  have "\<bar>of_int M - (of_int n :: rat) / 5\<bar> \<le> 1 / 2"
    using rhe_error [of "a / Q"] by (simp add: M_def aQ)
  then have "- (1 / 2) \<le> of_int M - (of_int n :: rat) / 5"
    and "of_int M - (of_int n :: rat) / 5 \<le> 1 / 2"
    by (simp_all only: abs_le_iff) linarith+
  then have "- (5 / 2) \<le> 5 * of_int M - (of_int n :: rat)"
    and "5 * of_int M - (of_int n :: rat) \<le> 5 / 2"
    by linarith+
  then have "\<bar>5 * of_int M - (of_int n :: rat)\<bar> \<le> 5 / 2" by linarith
  then have "\<bar>(of_int (5 * M - n) :: rat)\<bar> \<le> 5 / 2" by simp
  then have "\<bar>(of_int d :: rat)\<bar> < of_int 3" by (simp add: d_def)
  then have "\<bar>d\<bar> < 3" by (simp only: of_int_abs [symmetric] of_int_less_iff)
  then have d: "- 2 \<le> d" "d \<le> 2" by simp_all
  have M5: "5 * of_int M = (of_int n :: rat) + of_int d" by (simp add: d_def)
  have x80: "80 * x = of_int k + 16 * of_int d * Q"
  proof -
    have "80 * x = 16 * (5 * of_int M) * Q" by (simp add: x_def)
    also have "\<dots> = 16 * of_int n * Q + 16 * of_int d * Q" by (simp only: M5) (simp add: algebra_simps)
    finally show ?thesis by (simp only: nQ)
  qed
  have "pow2 (e + 1) / Q = pow2 53"
  proof -
    have "pow2 (e + 1) / Q = pow2 ((e + 1) - (e - 52))" by (simp only: Q_def pow2_diff)
    then show ?thesis by simp
  qed
  have "pow2 e / Q = pow2 52"
  proof -
    have "pow2 e / Q = pow2 (e - (e - 52))" by (simp only: Q_def pow2_diff)
    then show ?thesis by simp
  qed
  have "of_int (2 ^ 52) \<le> a / Q"
  proof -
    have "pow2 e / Q \<le> a / Q" using lo Q0 by (simp add: divide_right_mono)
    then show ?thesis using \<open>pow2 e / Q = pow2 52\<close> by (simp add: pow2_numeral)
  qed
  moreover have "a / Q \<le> of_int (2 ^ 53)"
  proof -
    have "a / Q \<le> pow2 (e + 1) / Q" using hi Q0 by (simp add: divide_right_mono)
    then show ?thesis using \<open>pow2 (e + 1) / Q = pow2 53\<close> by (simp add: pow2_numeral)
  qed
  ultimately have Mb: "2 ^ 52 \<le> M" "M \<le> 2 ^ 53"
    using rhe_mono_bound [of "2 ^ 52" "a / Q" "2 ^ 53"] by (simp_all add: M_def)
  have Qe: "pow2 e = 2 ^ 52 * Q"
    using \<open>pow2 e / Q = pow2 52\<close> Q0 by (simp add: pow2_numeral field_simps)
  have t_lo: "80 * pow2 e \<le> 80 * x"
  proof -
    have "(of_int (2 ^ 52) :: rat) \<le> of_int M" using Mb(1) by (simp only: of_int_le_iff)
    then have "of_int (2 ^ 52) * Q \<le> x" unfolding x_def using Q0 by (intro mult_right_mono) simp_all
    then show ?thesis by (simp add: Qe)
  qed
  have t_hi: "80 * x \<le> 160 * pow2 e"
  proof -
    have "(of_int M :: rat) \<le> of_int (2 ^ 53)" using Mb(2) by (simp only: of_int_le_iff)
    then have "x \<le> of_int (2 ^ 53) * Q" unfolding x_def using Q0 by (intro mult_right_mono) simp_all
    then show ?thesis by (simp add: Qe)
  qed
  have p6: "pow2 (e + 6) = 64 * pow2 e" and p7: "pow2 (e + 7) = 128 * pow2 e"
    and p8: "pow2 (e + 8) = 256 * pow2 e"
    by (simp_all add: pow2_add pow2_numeral)
  have e0: "0 < pow2 e" by simp
  have n4: "n = 4 * (k * 2 ^ nat (46 - e))" and n8: "n = 8 * (k * 2 ^ nat (45 - e))"
  proof -
    have "nat (48 - e) = nat (46 - e) + 2" using e_hi by simp
    then show "n = 4 * (k * 2 ^ nat (46 - e))" by (simp add: n_def power_add)
    have "nat (48 - e) = nat (45 - e) + 3" using e_hi by simp
    then show "n = 8 * (k * 2 ^ nat (45 - e))" by (simp add: n_def power_add)
  qed
  have "fl (80 * x) = Some (of_int k)"
  proof (cases "80 * x < pow2 (e + 7)")
    case True
    have l: "pow2 (e + 6) \<le> 80 * x" using t_lo e0 unfolding p6 by linarith
    have h: "80 * x < pow2 (e + 6 + 1)" using True by (simp add: add.commute add.left_commute)
    define K where "K = k * 2 ^ nat (46 - e)"
    have "0 < nat (46 - e)" using e_hi by simp
    then have evenK: "even K" by (simp add: K_def)
    have Q': "pow2 (e + 6 - 52) = 64 * Q"
    proof -
      have "e + 6 - 52 = 6 + (e - 52)" by simp
      then show ?thesis by (simp only: pow2_add Q_def pow2_numeral) simp
    qed
    have kQ: "of_int k = 64 * of_int K * Q" using nQ by (simp add: n4 K_def)
    have "80 * x = (of_int K + of_int d / 4) * (64 * Q)"
      unfolding x80 kQ by (simp add: algebra_simps)
    then have "80 * x / (64 * Q) = of_int K + of_int d / 4"
      using Q0 by simp
    then have r: "round_half_even (80 * x / (64 * Q)) = K"
      using rhe_quarter [OF evenK d] by (simp only:)
    have "fl (80 * x) =
        Some (of_int (round_half_even (80 * x / pow2 (e + 6 - 52))) * pow2 (e + 6 - 52))"
      by (rule fl_normal [OF l h]) (use e_lo e_hi in simp_all)
    then have "fl (80 * x) = Some (of_int K * (64 * Q))" unfolding Q' r .
    then show ?thesis by (simp add: kQ)
  next
    case False
    then have l: "pow2 (e + 7) \<le> 80 * x" by simp
    have "80 * x < pow2 (e + 8)" using t_hi e0 unfolding p8 by linarith
    then have h: "80 * x < pow2 (e + 7 + 1)" by (simp add: add.commute add.left_commute)
    define K where "K = k * 2 ^ nat (45 - e)"
    have Q': "pow2 (e + 7 - 52) = 128 * Q"
    proof -
      have "e + 7 - 52 = 7 + (e - 52)" by simp
      then show ?thesis by (simp only: pow2_add Q_def pow2_numeral) simp
    qed
    have kQ: "of_int k = 128 * of_int K * Q" using nQ by (simp add: n8 K_def)
    have "80 * x = (of_int K + of_int d / 8) * (128 * Q)"
      unfolding x80 kQ by (simp add: algebra_simps)
    then have "80 * x / (128 * Q) = of_int K + of_int d / 8"
      using Q0 by simp
    then have r: "round_half_even (80 * x / (128 * Q)) = K"
      using rhe_eighth [OF d] by (simp only:)
    have "fl (80 * x) =
        Some (of_int (round_half_even (80 * x / pow2 (e + 7 - 52))) * pow2 (e + 7 - 52))"
      by (rule fl_normal [OF l h]) (use e_lo e_hi in simp_all)
    then have "fl (80 * x) = Some (of_int K * (128 * Q))" unfolding Q' r .
    then show ?thesis by (simp add: kQ)
  qed
  with flx show ?thesis by (auto simp: a_def)
qed

lemma fl_rel_error_range:
  assumes "pow2 (- 100) \<le> x" and "x \<le> pow2 100"
  shows "\<exists>y. fl x = Some y \<and> \<bar>y - x\<bar> \<le> x / 2 ^ 53"
proof -
  have x: "0 < x" using assms(1) pow2_pos [of "- 100"] by linarith
  define e where "e = ilog2 x"
  from ilog2_bounds [OF x] have lo: "pow2 e \<le> x" and hi: "x < pow2 (e + 1)"
    by (simp_all add: e_def)
  from assms(1) hi have "pow2 (- 100) < pow2 (e + 1)" by (rule le_less_trans)
  then have "- 100 < e + 1" by (simp only: pow2_less_iff)
  then have e1: "- 1022 \<le> e" by simp
  from lo assms(2) have "pow2 e \<le> pow2 100" by (rule order_trans)
  then have "e \<le> 100" by (simp only: pow2_le_iff)
  then have e2: "e \<le> 1022" by simp
  from lo hi e1 e2 show ?thesis by (rule fl_rel_error)
qed

lemma start_column_int:
  assumes s0: "0 \<le> s" and f1: "1 \<le> fps" and bound: "80 * s + fps \<le> 2 ^ 51"
  shows "start_column (of_int fps) s = Inr (80 * s div fps)"
proof -
  have fps53: "fps \<le> 2 ^ 53" and s53: "s \<le> 2 ^ 53" using s0 f1 bound by simp_all
  have ff: "py_float (of_int fps) = Inr (of_int fps)"
    using fl_of_int [of fps] f1 fps53 by (simp add: py_float_def)
  have fs: "py_float (of_int s) = Inr (of_int s)"
    using fl_of_int [of s] s0 s53 by (simp add: py_float_def)
  define F :: rat where "F = of_int fps"
  define S :: rat where "S = of_int s"
  have F1: "1 \<le> F" using f1 by (simp add: F_def)
  have S0: "0 \<le> S" using s0 by (simp add: S_def)
  have SF: "80 * S + F \<le> 2 ^ 51"
  proof -
    have "(of_int (80 * s + fps) :: rat) \<le> of_int (2 ^ 51)" using bound by (simp only: of_int_le_iff)
    then show ?thesis by (simp add: S_def F_def)
  qed
  define k where "k = 80 * s div fps"
  define r where "r = 80 * s mod fps"
  have kr: "80 * s = k * fps + r" by (simp add: k_def r_def)
  have r0: "0 \<le> r" and rf: "r < fps" using f1 by (simp_all add: r_def)
  have k0: "0 \<le> k" using s0 f1 by (simp add: k_def pos_imp_zdiv_nonneg_iff)
  have unfold: "start_column (of_int fps) s =
      (case fl (S / F) of
         None \<Rightarrow> py_int (py_mul 80 Infinite)
       | Some z \<Rightarrow> py_int (py_mul 80 (Finite z)))"
    using F1 by (simp add: start_column_def ff py_truediv_def fs S_def F_def split: option.splits)
  have goal: "(case fl (S / F) of
         None \<Rightarrow> py_int (py_mul 80 Infinite)
       | Some z \<Rightarrow> py_int (py_mul 80 (Finite z))) = Inr k"
  proof (cases "s = 0")
    case True
    then have "k = 0" by (simp add: k_def)
    with True show ?thesis by (simp add: S_def py_mul_def py_int_def)
  next
    case False
    with s0 have s1: "1 \<le> s" by simp
    then have S1: "1 \<le> S" by (simp add: S_def)
    show ?thesis
    proof (cases "r = 0")
      case True
      with kr have ks: "80 * s = k * fps" by simp
      then have "(of_int (80 * s) :: rat) = of_int (k * fps)" by simp
      then have "80 * S = of_int k * F" by (simp add: S_def F_def)
      then have q: "S / F = of_int k / 80" using F1 by (simp add: field_simps)
      have "k \<noteq> 0" using ks s1 by auto
      with k0 have k1: "1 \<le> k" by simp
      have "k * 1 \<le> k * fps" using k0 f1 by (intro mult_left_mono) simp_all
      with ks bound f1 have k2: "k \<le> 2 ^ 51" by simp
      from fl_times80 [OF k1 k2] obtain x where
        "fl (of_int k / 80) = Some x" "fl (80 * x) = Some (of_int k)" by blast
      then show ?thesis using k0 by (simp add: q py_mul_def py_int_def)
    next
      case False
      with r0 have r1: "1 \<le> r" by simp
      define A :: rat where "A = 80 * S / F"
      define w :: rat where "w = 1 / (4 * F)"
      define u :: rat where "u = 1 / 2 ^ 53"
      have F0: "0 < F" using F1 by simp
      have w0: "0 < w" using F0 by (simp add: w_def)
      have w4: "4 * w = 1 / F" by (simp add: w_def)
      have u0: "0 \<le> u" "u \<le> 1" by (simp_all add: u_def)
      have AF: "A * F = 80 * S" using F0 by (simp add: A_def)
      have "(of_int (80 * s) :: rat) = of_int (k * fps + r)" using kr by simp
      then have "80 * S = of_int k * F + of_int r" by (simp add: S_def F_def)
      then have Ak: "A = of_int k + of_int r / F" using F0 by (simp add: A_def field_simps)
      have "(1 :: rat) \<le> of_int r" using r1 by simp
      then have "1 / F \<le> of_int r / F" using F0 by (simp add: divide_right_mono)
      then have A_lo: "of_int k + 4 * w \<le> A" by (simp add: Ak w4)
      have "r + 1 \<le> fps" using rf by simp
      then have "(of_int (r + 1) :: rat) \<le> of_int fps" by (simp only: of_int_le_iff)
      then have "of_int r + 1 \<le> F" by (simp add: F_def)
      then have "(of_int r + 1) / F \<le> F / F" using F0 by (intro divide_right_mono) simp_all
      then have "of_int r / F + 1 / F \<le> 1" using F0 by (simp add: add_divide_distrib)
      then have A_hi: "A + 4 * w \<le> of_int k + 1" by (simp add: Ak w4)
      have Au: "A * u \<le> w"
      proof -
        have "80 * S \<le> 2 ^ 51" using SF F1 by linarith
        then have "A * F * 4 \<le> 2 ^ 53" by (simp add: AF)
        then have "A * F * 4 / (2 ^ 53 * (4 * F)) \<le> 2 ^ 53 / (2 ^ 53 * (4 * F))"
          using F0 by (intro divide_right_mono) simp_all
        then show ?thesis using F0 by (simp add: u_def w_def)
      qed
      have k0r: "(0 :: rat) \<le> of_int k" using k0 by simp
      have A0: "0 < A" using A_lo w0 k0r by linarith
      have q: "S / F = A / 80" by (simp add: A_def)
      have q_lo: "pow2 (- 100) \<le> A / 80"
      proof -
        have "1 / F \<le> A" using A_lo w4 k0r by linarith
        moreover have "1 / 2 ^ 51 \<le> 1 / F"
          using SF S0 F0 by (intro divide_left_mono) simp_all
        ultimately have "1 / 2 ^ 51 \<le> A" by linarith
        then show ?thesis by (simp add: pow2_def)
      qed
      have A51: "A \<le> 2 ^ 51"
      proof -
        have "A * 1 \<le> A * F" using A0 F1 by (intro mult_left_mono) simp_all
        with AF SF F0 show ?thesis by simp
      qed
      then have q_hi: "A / 80 \<le> pow2 100" by (simp add: pow2_numeral)
      from fl_rel_error_range [OF q_lo q_hi] obtain x where
        x: "fl (A / 80) = Some x" and xe: "\<bar>x - A / 80\<bar> \<le> A / 80 / 2 ^ 53" by blast
      define t where "t = 80 * x"
      have te: "\<bar>t - A\<bar> \<le> A * u"
      proof -
        have "t - A = 80 * (x - A / 80)" by (simp add: t_def)
        then have "\<bar>t - A\<bar> = 80 * \<bar>x - A / 80\<bar>" by (simp only: abs_mult)
        also have "\<dots> \<le> 80 * (A / 80 / 2 ^ 53)" using xe by (intro mult_left_mono) simp_all
        also have "\<dots> = A * u" by (simp add: u_def)
        finally show ?thesis .
      qed
      with Au have tw: "\<bar>t - A\<bar> \<le> w" by linarith
      have t_lo: "pow2 (- 100) \<le> t"
      proof -
        have "3 * w \<le> t" using tw A_lo k0r by linarith
        moreover have "1 / 2 ^ 51 \<le> 1 / F"
          using SF S0 F0 by (intro divide_left_mono) simp_all
        moreover from this have "1 / 2 ^ 51 \<le> 4 * w" by (simp only: w4)
        then have "1 / 2 ^ 53 \<le> w" by simp
        ultimately have "1 / 2 ^ 53 \<le> t" using w0 by linarith
        then show ?thesis by (simp add: pow2_def)
      qed
      have t_hi: "t \<le> pow2 100"
      proof -
        have "w \<le> 1" using F1 by (simp add: w_def)
        with tw A51 have "t \<le> 2 ^ 51 + 1" by linarith
        then show ?thesis by (simp add: pow2_numeral)
      qed
      from fl_rel_error_range [OF t_lo t_hi] obtain y where
        y: "fl t = Some y" and ye: "\<bar>y - t\<bar> \<le> t / 2 ^ 53" by blast
      have "t * u \<le> (A + w) * u" using tw u0 by (intro mult_right_mono) linarith+
      also have "\<dots> = A * u + w * u" by (simp add: algebra_simps)
      also have "w * u \<le> w * 1" using w0 u0 by (intro mult_left_mono) simp_all
      finally have "t * u \<le> 2 * w" using Au by simp
      with ye have "\<bar>y - t\<bar> \<le> 2 * w" by (simp add: u_def)
      with tw have "\<bar>y - A\<bar> \<le> 3 * w" by linarith
      with A_lo A_hi w0 have "of_int k \<le> y" "y < of_int k + 1" by linarith+
      then have fl_y: "\<lfloor>y\<rfloor> = k" by (simp add: floor_unique)
      have "0 \<le> y" using \<open>of_int k \<le> y\<close> k0r by linarith
      with x y fl_y show ?thesis by (simp add: q py_mul_def py_int_def t_def)
    qed
  qed
  from unfold goal show ?thesis by (simp add: k_def)
qed

lemma fl_eval:
  assumes "pow2 e \<le> x" and "x < pow2 (e + 1)" and "- 1022 \<le> e" and "e \<le> 1022"
    and "round_half_even (x / pow2 (e - 52)) = m"
  shows "fl x = Some (of_int m * pow2 (e - 52))"
  using fl_normal [OF assms(1-4)] assms(5) by simp

lemma fl_big_quotient: "fl (63774212176093 / 29) = Some (2251889423045491 / 1024)"
proof -
  have r: "round_half_even (63774212176093 / 29 / pow2 (41 - 52)) = 4503778846090982"
    by (rule rhe_near) (simp add: pow2_def)
  have "fl (63774212176093 / 29) = Some (of_int 4503778846090982 * pow2 (41 - 52))"
    by (rule fl_eval [OF _ _ _ _ r]) (simp_all add: pow2_def)
  then show ?thesis by (simp add: pow2_def)
qed

lemma fl_big_product: "fl (80 * (2251889423045491 / 1024)) = Some 175928861175429"
proof -
  have r: "round_half_even (80 * (2251889423045491 / 1024) / pow2 (47 - 52)) = 5629723557613728"
    using rhe_tie_below [of 5629723557613728] by (simp add: pow2_def)
  have "fl (80 * (2251889423045491 / 1024)) = Some (of_int 5629723557613728 * pow2 (47 - 52))"
    by (rule fl_eval [OF _ _ _ _ r]) (simp_all add: pow2_def)
  then show ?thesis by (simp add: pow2_def)
qed

lemma start_column_big_start:
  "start_column 29 63774212176093 = Inr 175928861175429"
proof -
  have f: "fl 29 = Some 29" "fl 63774212176093 = Some 63774212176093"
    using fl_of_int [of 29] fl_of_int [of 63774212176093] by simp_all
  show ?thesis
    by (simp add: start_column_def py_float_def py_truediv_def py_mul_def py_int_def
        f fl_big_quotient [simplified] fl_big_product [simplified])
qed

lemma fl_ntsc_rate: "fl (6748650790265479 / 281474976710656) = Some (6748650790265479 / 281474976710656)"
  by (rule fl_exact [where e = 4 and m = 6748650790265479]) (simp_all add: pow2_def)

lemma fl_ntsc_quotient:
  "fl (300 / (6748650790265479 / 281474976710656)) = Some (3521955646092083 / 281474976710656)"
proof -
  have r: "round_half_even (300 / (6748650790265479 / 281474976710656) / pow2 (3 - 52)) =
      7043911292184166"
    by (rule rhe_near) (simp add: pow2_def)
  have "fl (300 / (6748650790265479 / 281474976710656)) =
      Some (of_int 7043911292184166 * pow2 (3 - 52))"
    by (rule fl_eval [OF _ _ _ _ r]) (simp_all add: pow2_def)
  then show ?thesis by (simp add: pow2_def)
qed

lemma fl_ntsc_product: "fl (80 * (3521955646092083 / 281474976710656)) = Some 1001"
proof -
  have r: "round_half_even (80 * (3521955646092083 / 281474976710656) / pow2 (9 - 52)) =
      8804889115230208"
    using rhe_tie_below [of 8804889115230208] by (simp add: pow2_def)
  have "fl (80 * (3521955646092083 / 281474976710656)) =
      Some (of_int 8804889115230208 * pow2 (9 - 52))"
    by (rule fl_eval [OF _ _ _ _ r]) (simp_all add: pow2_def)
  then show ?thesis by (simp add: pow2_def)
qed

lemma start_column_ntsc:
  "start_column (6748650790265479 / 281474976710656) 300 = Inr 1001"
proof -
  have f: "fl 300 = Some 300" using fl_of_int [of 300] by simp
  show ?thesis
    by (simp add: start_column_def py_float_def py_truediv_def py_mul_def py_int_def
        f fl_ntsc_rate fl_ntsc_quotient [simplified] fl_ntsc_product [simplified])
qed

lemma floor_ntsc: "\<lfloor>80 * 300 / (6748650790265479 / 281474976710656 :: rat)\<rfloor> = 1000"
  by (simp add: floor_unique)

section \<open>Claims about the audio window\<close>

lemma py_slice_window:
  assumes "0 \<le> a" and "0 \<le> n"
  shows "py_slice xs a (a + n) = take (nat n) (drop (nat a) xs)"
proof (cases "a \<le> int (length xs)")
  case True
  with assms have "py_slice xs a (a + n) =
      take (nat (min (a + n) (int (length xs)) - a)) (drop (nat a) xs)"
    by (simp add: py_slice_def Let_def min_def)
  also have "\<dots> = take (nat n) (drop (nat a) xs)"
  proof (cases "a + n \<le> int (length xs)")
    case True
    then show ?thesis by simp
  next
    case False
    with True assms have "length (drop (nat a) xs) \<le> nat n"
      and "length (drop (nat a) xs) \<le> nat (min (a + n) (int (length xs)) - a)"
      by (simp_all add: min_def)
    then show ?thesis by simp
  qed
  finally show ?thesis .
next
  case False
  with assms show ?thesis by (simp add: py_slice_def Let_def min_def)
qed

text \<open>
  C5, as stated, fails in its first part: the start column is computed in binary64 and is
  not always \<open>\<lfloor>80 * s / fps\<rfloor>\<close>. At the frame rate \<open>24000 / 1001\<close> of NTSC film, which as a
  double is \<open>6748650790265479 / 2 ^ 48\<close>, and \<open>s = 300\<close>, the quotient rounds up, the product
  rounds up to 1001 and the code starts at column 1001, where \<open>\<lfloor>80 * 300 / fps\<rfloor> = 1000\<close>: of
  a spectrogram of 1100 columns the window is the columns 1001 to 1016, not 1000 to 1015.
  And at the integer rate 29 with the start \<open>s = 63774212176093\<close>, where \<open>80 * s + 29\<close> is a
  little above \<open>2 ^ 52\<close>, the two roundings add up: the code yields 175928861175429, where
  \<open>\<lfloor>80 * s / 29\<rfloor> = 175928861175428\<close>.
\<close>

theorem start_column_counterexample:
  "fl (6748650790265479 / 281474976710656) = Some (6748650790265479 / 281474976710656) \<and>
   start_column (6748650790265479 / 281474976710656) 300 = Inr 1001 \<and>
   \<lfloor>80 * 300 / (6748650790265479 / 281474976710656 :: rat)\<rfloor> = 1000 \<and>
   crop_audio_window
     ((demo_dataset [] True)\<lparr>video_fps := 6748650790265479 / 281474976710656\<rparr>) [0..<1100] 300 =
     Inr [[1001..<1017]] \<and>
   start_column 29 63774212176093 = Inr 175928861175429 \<and>
   \<lfloor>80 * 63774212176093 / (29 :: rat)\<rfloor> = 175928861175428 \<and>
   \<not> 80 * 63774212176093 + 29 \<le> (2::int) ^ 51 \<and>
   80 * 63774212176093 + 29 \<le> (2::int) ^ 53"
proof -
  have "py_slice [0..<1100] 1001 (1001 + 16) = take (nat 16) (drop (nat 1001) [0..<1100])"
    by (rule py_slice_window) simp_all
  then have "py_slice [0..<1100] 1001 1017 = [1001..<1017]" by simp
  then have "crop_audio_window
     ((demo_dataset [] True)\<lparr>video_fps := 6748650790265479 / 281474976710656\<rparr>) [0..<1100] 300 =
     Inr [[1001..<1017]]"
    by (simp add: crop_audio_window_def start_column_ntsc demo_dataset_def)
  moreover have "\<lfloor>80 * 63774212176093 / (29 :: rat)\<rfloor> = 175928861175428"
    by (simp add: floor_unique)
  ultimately show ?thesis
    using fl_ntsc_rate start_column_ntsc floor_ntsc start_column_big_start by simp
qed

text \<open>
  C5, amended. For a frame rate that is an integer \<open>fps \<ge> 1\<close> and a start index \<open>s \<ge> 0\<close> with
  \<open>80 * s + fps \<le> 2 ^ 51\<close>, the start column that \<^verbatim>\<open>crop_audio_window\<close> computes in binary64 is
  exactly \<open>\<lfloor>80 * s / fps\<rfloor>\<close>; in particular it is 0 for \<open>s = 0\<close> and 80 for \<open>s = 25\<close> at 25
  frames per second. With a window length that is not negative, the result is the columns
  of the spectrogram from the start column on, at most the window length of them and
  fewer when the spectrogram ends before, under a leading axis of length one.
\<close>

theorem crop_audio_window_columns:
  assumes "video_fps self = of_int fps" and "1 \<le> fps" and "0 \<le> s"
    and "80 * s + fps \<le> 2 ^ 51" and "0 \<le> mel_window_length self"
  shows "start_column (video_fps self) s = Inr \<lfloor>80 * of_int s / (of_int fps :: rat)\<rfloor> \<and>
         crop_audio_window self original_mel s =
           Inr [take (nat (mel_window_length self))
                  (drop (nat \<lfloor>80 * of_int s / (of_int fps :: rat)\<rfloor>) original_mel)] \<and>
         start_column 25 0 = Inr 0 \<and> start_column 25 25 = Inr 80"
proof -
  have fl_div: "\<lfloor>80 * of_int s / (of_int fps :: rat)\<rfloor> = 80 * s div fps"
    using floor_divide_of_int_eq [of "80 * s" fps, where ?'a = rat] by simp
  have col: "start_column (video_fps self) s = Inr (80 * s div fps)"
    unfolding assms(1) using assms(3,2,4) by (rule start_column_int)
  have "0 \<le> 80 * s div fps" using assms(2,3) by (simp add: pos_imp_zdiv_nonneg_iff)
  from py_slice_window [OF this assms(5)]
  have "crop_audio_window self original_mel s =
      Inr [take (nat (mel_window_length self)) (drop (nat (80 * s div fps)) original_mel)]"
    by (simp add: crop_audio_window_def col)
  moreover have "start_column 25 0 = Inr 0"
    using start_column_int [of 0 25] by simp
  moreover have "start_column 25 25 = Inr 80"
    using start_column_int [of 25 25] by simp
  ultimately show ?thesis using col by (simp only: fl_div)
qed

theorem crop_audio_window_columns_witness:
  "video_fps (demo_dataset [] True) = of_int 25 \<and> (1::int) \<le> 25 \<and> (0::int) \<le> 5 \<and>
   80 * 5 + 25 \<le> (2::int) ^ 51 \<and> 0 \<le> mel_window_length (demo_dataset [] True) \<and>
   start_column (video_fps (demo_dataset [] True)) 5 = Inr 16 \<and>
   crop_audio_window (demo_dataset [] True) [0..<30] 5 = Inr [[16..<30]] \<and>
   crop_audio_window (demo_dataset [] True) [0..<30] 0 = Inr [[0..<16]]"
proof -
  let ?ds = "demo_dataset [] True"
  have h: "video_fps ?ds = of_int 25" "0 \<le> mel_window_length ?ds" "mel_window_length ?ds = 16"
    by (simp_all add: demo_dataset_def)
  have f5: "\<lfloor>80 * of_int 5 / (of_int 25 :: rat)\<rfloor> = 16"
    and f0: "\<lfloor>80 * of_int 0 / (of_int 25 :: rat)\<rfloor> = 0"
    by (simp_all add: floor_unique)
  from crop_audio_window_columns [OF h(1) _ _ _ h(2), of 5 "[0..<30]"]
  have a: "start_column (video_fps ?ds) 5 = Inr 16"
    and b: "crop_audio_window ?ds [0..<30] 5 = Inr [[16..<30]]"
    by (simp_all add: f5 h(3))
  from crop_audio_window_columns [OF h(1) _ _ _ h(2), of 0 "[0..<30]"]
  have c: "crop_audio_window ?ds [0..<30] 0 = Inr [[0..<16]]"
    by (simp add: f0 h(3))
  from h a b c show ?thesis by simp
qed


end
